theory Spec2Isabelle
  imports Main "HOL-Library.AList"
begin

section \<open>The syslinux configuration parser of pkg/boot/syslinux\<close>

text \<open>
  A shallow embedding of \<^verbatim>\<open>pkg/boot/syslinux/syslinux.go\<close>. Go strings are byte
  strings (\<^typ>\<open>string\<close>); the text functions of Go's \<^verbatim>\<open>strings\<close> package are
  written out for ASCII text: the white space of \<^verbatim>\<open>strings.Fields\<close> is the six
  ASCII space characters and \<^verbatim>\<open>strings.ToLower\<close> maps the letters A to Z.
  What the parser gets from outside (URL parsing, the path arithmetic of
  \<^verbatim>\<open>path/filepath\<close>, and the fetchers of \<^verbatim>\<open>curl.Schemes\<close>) is a parameter,
  the record \<open>env\<close>.
\<close>

subsection \<open>Text functions of Go's strings package (ASCII)\<close>

definition isSpace :: "char \<Rightarrow> bool" where
  "isSpace c = (c \<in> set [CHR 0x09, CHR 0x0A, CHR 0x0B, CHR 0x0C, CHR 0x0D, CHR '' ''])"

text \<open>\<^verbatim>\<open>strings.Fields\<close>: the maximal runs of non-space characters, in order.\<close>

primrec fields_acc :: "string \<Rightarrow> string \<Rightarrow> string list" where
  "fields_acc cur [] = (if cur = [] then [] else [cur])"
| "fields_acc cur (c # cs) =
     (if isSpace c then (if cur = [] then fields_acc [] cs else cur # fields_acc [] cs)
      else fields_acc (cur @ [c]) cs)"

definition strings_Fields :: "string \<Rightarrow> string list" where
  "strings_Fields s = fields_acc [] s"

text \<open>
  \<^verbatim>\<open>strings.Split\<close> with a separator of one character (the parser splits at
  newline and at the equals sign only): the result is never empty.
\<close>

primrec split_acc :: "char \<Rightarrow> string \<Rightarrow> string \<Rightarrow> string list" where
  "split_acc sep cur [] = [cur]"
| "split_acc sep cur (c # cs) =
     (if c = sep then cur # split_acc sep [] cs else split_acc sep (cur @ [c]) cs)"

definition strings_Split :: "string \<Rightarrow> char \<Rightarrow> string list" where
  "strings_Split s sep = split_acc sep [] s"

primrec strings_Join :: "string list \<Rightarrow> string \<Rightarrow> string" where
  "strings_Join [] sep = []"
| "strings_Join (x # xs) sep = (if xs = [] then x else x @ sep @ strings_Join xs sep)"

definition lower_char :: "char \<Rightarrow> char" where
  "lower_char c =
     (let n = (of_char c :: nat)
      in if 65 \<le> n \<and> n \<le> 90 then char_of (n + 32) else c)"

definition strings_ToLower :: "string \<Rightarrow> string" where
  "strings_ToLower s = map lower_char s"

subsection \<open>Data\<close>

text \<open>The fields of \<^verbatim>\<open>url.URL\<close> that the parser reads or writes.\<close>

record url =
  Scheme :: string
  Host :: string
  Path :: string

text \<open>A lazily fetched resource (an \<^verbatim>\<open>io.ReaderAt\<close>) is known by the URL it reads.\<close>

datatype handle = ReaderAt url

text \<open>
  The error classes of the specification, and the one error \<^verbatim>\<open>ParseLocalConfig\<close>
  makes itself. \<open>MalformedReference\<close> is the error of \<^verbatim>\<open>parseURL\<close>.
\<close>

datatype error = NotFound | TransportError | MalformedReference | NoValidConfig

text \<open>
  Modelled from the spec: \<^verbatim>\<open>curl.IsURLError\<close> (package pkg/curl) is not part of the
  sources at hand. The specification names the class of errors it accepts
  \<open>NotFound\<close> ("resource missing"); the parser's own comment at the call reads
  "Means we didn't find the file".
\<close>

definition IsURLError :: "error \<Rightarrow> bool" where
  "IsURLError e = (e = NotFound)"

text \<open>A Go run-time panic unwinds every caller; it is not an error value.\<close>

datatype panic = NilDereference | IndexOutOfRange

text \<open>
  What a call gives back: the value together with Go's \<^verbatim>\<open>error\<close> result
  (\<open>None\<close> is \<^verbatim>\<open>nil\<close>), or a panic. For the methods of the parser the value
  is the parser itself, which they mutate through their receiver also when they
  return an error.
\<close>

datatype 'a outcome = Return 'a "error option" | Panic panic

text \<open>The fields of \<^verbatim>\<open>boot.LinuxImage\<close> that the parser sets.\<close>

record LinuxImage =
  Name :: string
  Cmdline :: string
  Kernel :: "handle option"
  Initrd :: "handle option"

datatype scope = scopeGlobal | scopeEntry

text \<open>
  \<^verbatim>\<open>linuxEntries\<close> is a Go map from labels to pointers, each pointer made by one
  \<^verbatim>\<open>label\<close> directive and held by that key alone. It is an association list
  here: \<open>map_of\<close> looks a label up, \<open>AList.update\<close> stores under a label.
  Go leaves the order in which \<^verbatim>\<open>range\<close> visits a map open; the model visits the
  keys in the order of their first insertion, which matters only for which of
  several failing entries is reported by the initrd pass.
\<close>

record parser =
  linuxEntries :: "(string \<times> LinuxImage) list"
  labelOrder :: "string list"
  defaultEntry :: string
  nerfDefaultEntry :: string
  globalAppend :: string
  scope :: scope
  curEntry :: string
  wd :: "url option"

text \<open>
  The outside world: \<^verbatim>\<open>url.Parse\<close> (\<open>None\<close> when it fails),
  \<^verbatim>\<open>filepath.Join\<close> of two elements, \<^verbatim>\<open>filepath.Clean\<close>,
  \<^verbatim>\<open>filepath.Split\<close>, and of \<^verbatim>\<open>curl.Schemes\<close> the eager \<^verbatim>\<open>Fetch\<close>,
  whose reader is named by a URL and read by \<^verbatim>\<open>uio.ReadAll\<close>, and
  \<^verbatim>\<open>LazyFetch\<close>. The parser never changes its \<^verbatim>\<open>schemes\<close> field, so the
  fetchers are a parameter of the functions and not a field of the parser.
\<close>

record env =
  url_Parse :: "string \<Rightarrow> url option"
  filepath_Join :: "string \<Rightarrow> string \<Rightarrow> string"
  filepath_Clean :: "string \<Rightarrow> string"
  filepath_Split :: "string \<Rightarrow> string \<times> string"
  Fetch :: "url \<Rightarrow> error + url"
  ReadAll :: "url \<Rightarrow> error + string"
  LazyFetch :: "url \<Rightarrow> error + handle"

subsection \<open>Candidate paths\<close>

definition probeIsolinuxFiles :: "env \<Rightarrow> string list" where
  "probeIsolinuxFiles E =
     (let dirs = [''boot/isolinux'', ''isolinux'', ''boot/syslinux'', ''syslinux'', ''''];
          confs = [''isolinux.cfg'', ''syslinux.cfg'']
      in concat (map (\<lambda>dir. map (\<lambda>conf.
           if dir = [] then conf else filepath_Join E dir conf) confs) dirs))"

subsection \<open>Resolving references\<close>

definition newParser :: "url option \<Rightarrow> parser" where
  "newParser w =
     \<lparr>linuxEntries = [], labelOrder = [], defaultEntry = [], nerfDefaultEntry = [],
      globalAppend = [], scope = scopeGlobal, curEntry = [], wd = w\<rparr>"

definition parseURL :: "env \<Rightarrow> string \<Rightarrow> url option \<Rightarrow> error + url" where
  "parseURL E surl w =
     (case url_Parse E surl of
        None \<Rightarrow> Inl MalformedReference
      | Some u \<Rightarrow>
          (case w of
             None \<Rightarrow> Inr u
           | Some d \<Rightarrow>
               if length (Scheme u) = 0 then
                 (let u1 = u\<lparr>Scheme := Scheme d\<rparr>
                  in if length (Host u1) = 0
                     then Inr (u1\<lparr>Host := Host d,
                                  Path := filepath_Join E (Path d) (filepath_Clean E (Path u1))\<rparr>)
                     else Inr u1)
               else Inr u))"

definition getFile :: "env \<Rightarrow> url option \<Rightarrow> string \<Rightarrow> error + handle" where
  "getFile E w ref =
     (case parseURL E ref w of
        Inl e \<Rightarrow> Inl e
      | Inr u \<Rightarrow> LazyFetch E u)"

subsection \<open>The directives\<close>

text \<open>
  The body of the loop over the lines in \<^verbatim>\<open>parser.append\<close>, one definition for
  each case of its switch. Storing through the pointer found under a label is
  \<open>set_entry\<close>.
\<close>

definition set_entry :: "parser \<Rightarrow> string \<Rightarrow> LinuxImage \<Rightarrow> parser" where
  "set_entry c k e = c\<lparr>linuxEntries := AList.update k e (linuxEntries c)\<rparr>"

text \<open>
  \<^verbatim>\<open>include\<close>: \<open>inc\<close> is the recursive call of \<^verbatim>\<open>appendFile\<close> on the same
  parser. An error that \<^verbatim>\<open>curl.IsURLError\<close> accepts is logged and the loop goes
  on; any other error is returned.
\<close>

definition case_include ::
  "(parser \<Rightarrow> string \<Rightarrow> parser outcome option) \<Rightarrow> parser \<Rightarrow> string \<Rightarrow> parser outcome option"
where
  "case_include inc c arg =
     (case inc c arg of
        None \<Rightarrow> None
      | Some (Panic p) \<Rightarrow> Some (Panic p)
      | Some (Return c' None) \<Rightarrow> Some (Return c' None)
      | Some (Return c' (Some err)) \<Rightarrow>
          if IsURLError err then Some (Return c' None)
          else Some (Return c' (Some err)))"

definition case_menu :: "parser \<Rightarrow> string \<Rightarrow> parser" where
  "case_menu c arg =
     (let opt = strings_Fields arg
      in if length opt < 1 then c
         else
           let sub = strings_ToLower (opt ! 0)
           in if sub = ''label'' then
                (case map_of (linuxEntries c) (curEntry c) of
                   Some e \<Rightarrow>
                     if length opt > 1
                     then set_entry c (curEntry c) (e\<lparr>Name := strings_Join (drop 1 opt) '' ''\<rparr>)
                     else c
                 | None \<Rightarrow> c)
              else if sub = ''default'' then
                (if scope c = scopeEntry then c\<lparr>defaultEntry := curEntry c\<rparr> else c)
              else c)"

definition case_label :: "parser \<Rightarrow> string \<Rightarrow> parser" where
  "case_label c arg =
     (let c1 = c\<lparr>scope := scopeEntry\<rparr>;
          c2 = c1\<lparr>curEntry := arg\<rparr>;
          c3 = set_entry c2 (curEntry c2)
                 \<lparr>Name = curEntry c2, Cmdline = globalAppend c2, Kernel = None, Initrd = None\<rparr>
      in c3\<lparr>labelOrder := labelOrder c3 @ [curEntry c3]\<rparr>)"

definition case_kernel :: "env \<Rightarrow> parser \<Rightarrow> string \<Rightarrow> parser outcome" where
  "case_kernel E c arg =
     (case map_of (linuxEntries c) (curEntry c) of
        Some e \<Rightarrow>
          (case getFile E (wd c) arg of
             Inl err \<Rightarrow> Return c (Some err)
           | Inr k \<Rightarrow> Return (set_entry c (curEntry c) (e\<lparr>Kernel := Some k\<rparr>)) None)
      | None \<Rightarrow> Return c None)"

definition case_initrd :: "env \<Rightarrow> parser \<Rightarrow> string \<Rightarrow> parser outcome" where
  "case_initrd E c arg =
     (case map_of (linuxEntries c) (curEntry c) of
        Some e \<Rightarrow>
          (case getFile E (wd c) arg of
             Inl err \<Rightarrow> Return c (Some err)
           | Inr i \<Rightarrow> Return (set_entry c (curEntry c) (e\<lparr>Initrd := Some i\<rparr>)) None)
      | None \<Rightarrow> Return c None)"

text \<open>
  \<^verbatim>\<open>append\<close> in the scope of an entry stores through
  \<^verbatim>\<open>c.linuxEntries[c.curEntry]\<close> without a test: a label that is not a key gives
  the nil pointer, and the store panics.
\<close>

definition case_append :: "parser \<Rightarrow> string \<Rightarrow> parser outcome" where
  "case_append c arg =
     (case scope c of
        scopeGlobal \<Rightarrow> Return (c\<lparr>globalAppend := arg\<rparr>) None
      | scopeEntry \<Rightarrow>
          (case map_of (linuxEntries c) (curEntry c) of
             None \<Rightarrow> Panic NilDereference
           | Some e \<Rightarrow>
               if arg = ''-'' then Return (set_entry c (curEntry c) (e\<lparr>Cmdline := []\<rparr>)) None
               else Return (set_entry c (curEntry c) (e\<lparr>Cmdline := arg\<rparr>)) None))"

text \<open>
  One line. \<open>Return c' None\<close> goes on with the next line (also Go's
  \<^verbatim>\<open>continue\<close>), \<open>Return c' (Some err)\<close> is \<^verbatim>\<open>return err\<close>.
\<close>

definition process_line ::
  "(parser \<Rightarrow> string \<Rightarrow> parser outcome option) \<Rightarrow> env \<Rightarrow> parser \<Rightarrow> string
     \<Rightarrow> parser outcome option"
where
  "process_line inc E c line =
     (let kv = strings_Fields line
      in if length kv \<le> 1 then Some (Return c None)
         else
           let directive = strings_ToLower (kv ! 0);
               arg = (if length kv = 2 then kv ! 1 else strings_Join (drop 1 kv) '' '')
           in if directive = ''default'' then Some (Return (c\<lparr>defaultEntry := arg\<rparr>) None)
              else if directive = ''nerfdefault'' then
                Some (Return (c\<lparr>nerfDefaultEntry := arg\<rparr>) None)
              else if directive = ''include'' then case_include inc c arg
              else if directive = ''menu'' then Some (Return (case_menu c arg) None)
              else if directive = ''label'' then Some (Return (case_label c arg) None)
              else if directive = ''kernel'' \<or> directive = ''linux'' then
                Some (case_kernel E c arg)
              else if directive = ''initrd'' then Some (case_initrd E c arg)
              else if directive = ''append'' then Some (case_append c arg)
              else Some (Return c None))"

primrec lines_loop ::
  "(parser \<Rightarrow> string \<Rightarrow> parser outcome option) \<Rightarrow> env \<Rightarrow> parser \<Rightarrow> string list
     \<Rightarrow> parser outcome option"
where
  "lines_loop inc E c [] = Some (Return c None)"
| "lines_loop inc E c (line # rest) =
     (case process_line inc E c line of
        Some (Return c' None) \<Rightarrow> lines_loop inc E c' rest
      | r \<Rightarrow> r)"

subsection \<open>The initrd pass\<close>

text \<open>
  The loop over the options of one command line. \<^verbatim>\<open>optkv[1]\<close> is read without a
  test of the length of \<^verbatim>\<open>optkv\<close>. The loop has no \<^verbatim>\<open>break\<close>: it goes on after
  a store.
\<close>

primrec initrd_scan :: "env \<Rightarrow> url option \<Rightarrow> LinuxImage \<Rightarrow> string list \<Rightarrow> LinuxImage outcome"
where
  "initrd_scan E w label [] = Return label None"
| "initrd_scan E w label (opt # opts) =
     (case strings_Split opt CHR ''='' of
        [] \<Rightarrow> Panic IndexOutOfRange
      | k # vs \<Rightarrow>
          if k \<noteq> ''initrd'' then initrd_scan E w label opts
          else
            (case vs of
               [] \<Rightarrow> Panic IndexOutOfRange
             | v # _ \<Rightarrow>
                 (case getFile E w v of
                    Inl err \<Rightarrow> Return label (Some err)
                  | Inr i \<Rightarrow> initrd_scan E w (label\<lparr>Initrd := Some i\<rparr>) opts)))"

text \<open>The loop over the entries; an entry whose initrd is set is left alone.\<close>

primrec backfill_entries ::
  "env \<Rightarrow> url option \<Rightarrow> (string \<times> LinuxImage) list \<Rightarrow> (string \<times> LinuxImage) list outcome"
where
  "backfill_entries E w [] = Return [] None"
| "backfill_entries E w (kl # rest) =
     (if Initrd (snd kl) \<noteq> None then
        (case backfill_entries E w rest of
           Panic p \<Rightarrow> Panic p
         | Return rest' err \<Rightarrow> Return (kl # rest') err)
      else
        (case initrd_scan E w (snd kl) (strings_Fields (Cmdline (snd kl))) of
           Panic p \<Rightarrow> Panic p
         | Return label (Some err) \<Rightarrow> Return ((fst kl, label) # rest) (Some err)
         | Return label None \<Rightarrow>
             (case backfill_entries E w rest of
                Panic p \<Rightarrow> Panic p
              | Return rest' err \<Rightarrow> Return ((fst kl, label) # rest') err)))"

definition backfill :: "env \<Rightarrow> parser \<Rightarrow> parser outcome" where
  "backfill E c =
     (case backfill_entries E (wd c) (linuxEntries c) of
        Panic p \<Rightarrow> Panic p
      | Return es err \<Rightarrow> Return (c\<lparr>linuxEntries := es\<rparr>) err)"

subsection \<open>Files\<close>

text \<open>
  \<^verbatim>\<open>parser.append\<close>: the lines of the text, then the initrd pass. (The name
  \<open>append\<close> is taken by lists.)
\<close>

definition parser_append ::
  "(parser \<Rightarrow> string \<Rightarrow> parser outcome option) \<Rightarrow> env \<Rightarrow> parser \<Rightarrow> string
     \<Rightarrow> parser outcome option"
where
  "parser_append inc E c config =
     (case lines_loop inc E c (strings_Split config CHR 0x0A) of
        Some (Return c' None) \<Rightarrow> Some (backfill E c')
      | r \<Rightarrow> r)"

text \<open>
  \<^verbatim>\<open>parser.appendFile\<close>. A file may include itself, so the recursion need not end:
  the first argument bounds the depth of nested files, and \<open>None\<close> says that the
  bound was reached.
\<close>

fun appendFile :: "nat \<Rightarrow> env \<Rightarrow> parser \<Rightarrow> string \<Rightarrow> parser outcome option" where
  "appendFile 0 E c ref = None"
| "appendFile (Suc n) E c ref =
     (case parseURL E ref (wd c) of
        Inl err \<Rightarrow> Some (Return c (Some err))
      | Inr u \<Rightarrow>
          (case Fetch E u of
             Inl err \<Rightarrow> Some (Return c (Some err))
           | Inr r \<Rightarrow>
               (case ReadAll E r of
                  Inl err \<Rightarrow> Some (Return c (Some err))
                | Inr config \<Rightarrow> parser_append (appendFile n E) E c config)))"

subsection \<open>The entry points\<close>

primrec dedup_loop :: "string list \<Rightarrow> string set \<Rightarrow> string list \<Rightarrow> string list" where
  "dedup_loop newList seen [] = newList"
| "dedup_loop newList seen (s # list) =
     (if s \<notin> seen then dedup_loop (newList @ [s]) (insert s seen) list
      else dedup_loop newList seen list)"

definition dedupStrings :: "string list \<Rightarrow> string list" where
  "dedupStrings list = dedup_loop [] {} list"

primrec collect_images :: "(string \<times> LinuxImage) list \<Rightarrow> string list \<Rightarrow> LinuxImage list" where
  "collect_images es [] = []"
| "collect_images es (label # rest) =
     (case map_of es label of
        Some img \<Rightarrow> img # collect_images es rest
      | None \<Rightarrow> collect_images es rest)"

definition ParseConfigFile ::
  "nat \<Rightarrow> env \<Rightarrow> string \<Rightarrow> url option \<Rightarrow> LinuxImage list outcome option"
where
  "ParseConfigFile n E ref w =
     (case appendFile n E (newParser w) ref of
        None \<Rightarrow> None
      | Some (Panic p) \<Rightarrow> Some (Panic p)
      | Some (Return p (Some err)) \<Rightarrow> Some (Return [] (Some err))
      | Some (Return p None) \<Rightarrow>
          if length (labelOrder p) = 0 then Some (Return [] None)
          else
            let p1 = (if length (defaultEntry p) > 0
                      then p\<lparr>labelOrder := defaultEntry p # labelOrder p\<rparr> else p);
                p2 = (if length (nerfDefaultEntry p1) > 0
                      then p1\<lparr>labelOrder := nerfDefaultEntry p1 # labelOrder p1\<rparr> else p1);
                p3 = p2\<lparr>labelOrder := dedupStrings (labelOrder p2)\<rparr>
            in Some (Return (collect_images (linuxEntries p3) (labelOrder p3)) None))"

text \<open>
  \<^verbatim>\<open>ParseLocalConfig\<close>: the loop over the candidates. \<^verbatim>\<open>curl.IsURLError(nil)\<close>
  is false.
\<close>

definition probe_one ::
  "nat \<Rightarrow> env \<Rightarrow> string \<Rightarrow> string \<Rightarrow> LinuxImage list outcome option"
where
  "probe_one n E diskDir relname =
     (case filepath_Split E relname of
        (dir, name) \<Rightarrow>
          ParseConfigFile n E name
            (Some \<lparr>Scheme = ''file'', Host = [], Path = filepath_Join E diskDir dir\<rparr>))"

primrec probe_loop ::
  "nat \<Rightarrow> env \<Rightarrow> string \<Rightarrow> string list \<Rightarrow> LinuxImage list outcome option"
where
  "probe_loop n E diskDir [] = Some (Return [] (Some NoValidConfig))"
| "probe_loop n E diskDir (relname # rest) =
     (case probe_one n E diskDir relname of
        None \<Rightarrow> None
      | Some (Panic p) \<Rightarrow> Some (Panic p)
      | Some (Return imgs err) \<Rightarrow>
          if (case err of None \<Rightarrow> False | Some e \<Rightarrow> IsURLError e)
          then probe_loop n E diskDir rest
          else Some (Return imgs err))"

definition ParseLocalConfig :: "nat \<Rightarrow> env \<Rightarrow> string \<Rightarrow> LinuxImage list outcome option" where
  "ParseLocalConfig n E diskDir = probe_loop n E diskDir (probeIsolinuxFiles E)"

subsection \<open>A concrete outside world\<close>

text \<open>
  For running the parser on concrete files: Unix paths as \<^verbatim>\<open>path/filepath\<close>
  treats them, references that are plain paths (no scheme, no host), and a file
  system given as a list of paths with their texts. A path in \<open>broken\<close> fails
  with a transport error, a path that is not listed is not found; a lazy fetch
  opens nothing and always succeeds.
\<close>

definition clean_step :: "bool \<Rightarrow> string \<Rightarrow> string list \<Rightarrow> string list" where
  "clean_step rooted el stack =
     (if el = ''..'' then
        (case stack of
           [] \<Rightarrow> if rooted then [] else [el]
         | t # below \<Rightarrow> if t = ''..'' then el # stack else below)
      else el # stack)"

definition unix_Clean :: "string \<Rightarrow> string" where
  "unix_Clean p =
     (let rooted = (take 1 p = ''/'');
          comps = filter (\<lambda>s. s \<noteq> [] \<and> s \<noteq> ''.'') (strings_Split p CHR ''/'');
          out = (if rooted then ''/'' else []) @
                strings_Join (rev (fold (clean_step rooted) comps [])) ''/''
      in if out = [] then ''.'' else out)"

definition unix_Join :: "string \<Rightarrow> string \<Rightarrow> string" where
  "unix_Join a b =
     (let parts = filter (\<lambda>s. s \<noteq> []) [a, b]
      in if parts = [] then [] else unix_Clean (strings_Join parts ''/''))"

definition unix_Split :: "string \<Rightarrow> string \<times> string" where
  "unix_Split p =
     (rev (dropWhile (\<lambda>c. c \<noteq> CHR ''/'') (rev p)),
      rev (takeWhile (\<lambda>c. c \<noteq> CHR ''/'') (rev p)))"

definition disk :: "(string \<times> string) list \<Rightarrow> string list \<Rightarrow> env" where
  "disk files broken =
     \<lparr>url_Parse = (\<lambda>s. Some \<lparr>Scheme = [], Host = [], Path = s\<rparr>),
      filepath_Join = unix_Join,
      filepath_Clean = unix_Clean,
      filepath_Split = unix_Split,
      Fetch = (\<lambda>u. if Path u \<in> set broken then Inl TransportError
                    else if map_of files (Path u) = None then Inl NotFound else Inr u),
      ReadAll = (\<lambda>u. case map_of files (Path u) of
                        None \<Rightarrow> Inl TransportError | Some text \<Rightarrow> Inr text),
      LazyFetch = (\<lambda>u. Inr (ReaderAt u))\<rparr>"

text \<open>The text of a file from its lines.\<close>

definition text_of :: "string list \<Rightarrow> string" where
  "text_of ls = strings_Join ls [CHR 0x0A]"

definition file_url :: "string \<Rightarrow> url" where
  "file_url p = \<lparr>Scheme = ''file'', Host = [], Path = p\<rparr>"

subsection \<open>Invariants\<close>

text \<open>
  \<open>ok I PP r\<close>: the parser that a call gives back satisfies \<open>I\<close>, and a panic is
  one that \<open>PP\<close> allows. \<open>invariant_steps E I PP\<close> collects what has to be shown
  of the single directives and of the initrd pass; the rule \<open>appendFile_ok\<close> then
  carries \<open>I\<close> through the lines of a file and through nested files of any depth.
\<close>

definition ok :: "(parser \<Rightarrow> bool) \<Rightarrow> (panic \<Rightarrow> bool) \<Rightarrow> parser outcome \<Rightarrow> bool" where
  "ok I PP r = (case r of Return c e \<Rightarrow> I c | Panic p \<Rightarrow> PP p)"

definition invariant_steps :: "env \<Rightarrow> (parser \<Rightarrow> bool) \<Rightarrow> (panic \<Rightarrow> bool) \<Rightarrow> bool" where
  "invariant_steps E I PP =
     (\<forall>c a. I c \<longrightarrow>
        I (c\<lparr>defaultEntry := a\<rparr>) \<and> I (c\<lparr>nerfDefaultEntry := a\<rparr>) \<and>
        I (case_menu c a) \<and> I (case_label c a) \<and>
        ok I PP (case_kernel E c a) \<and> ok I PP (case_initrd E c a) \<and>
        ok I PP (case_append c a) \<and> ok I PP (backfill E c))"

text \<open>
  In the scope of an entry the current label is a key of the entries.
\<close>

definition key_inv :: "parser \<Rightarrow> bool" where
  "key_inv c = (scope c = scopeEntry \<longrightarrow> curEntry c \<in> fst ` set (linuxEntries c))"

subsection \<open>Sample files\<close>

definition boot_dir :: "url option" where
  "boot_dir = Some (file_url ''/boot'')"

definition quiet_files :: "(string \<times> string) list" where
  "quiet_files = [(''/boot/syslinux.cfg'', text_of [''label A'', ''append quiet''])]"

definition quiet_entry :: LinuxImage where
  "quiet_entry = \<lparr>Name = ''A'', Cmdline = ''quiet'', Kernel = None, Initrd = None\<rparr>"

definition quiet_parser :: parser where
  "quiet_parser =
     \<lparr>linuxEntries = [(''A'', quiet_entry)], labelOrder = [''A''], defaultEntry = [],
      nerfDefaultEntry = [], globalAppend = [], scope = scopeEntry, curEntry = ''A'',
      wd = boot_dir\<rparr>"

definition bare_initrd_files :: "(string \<times> string) list" where
  "bare_initrd_files =
     [(''/boot/syslinux.cfg'', text_of [''label A'', ''append initrd quiet''])]"

subsection \<open>The working directory of nested files\<close>

text \<open>
  The directory portion of a URL, as the specification has it for the working
  directory of an included file.
\<close>

definition own_directory :: "env \<Rightarrow> url \<Rightarrow> url" where
  "own_directory E u = u\<lparr>Path := fst (filepath_Split E (Path u))\<rparr>"

definition nested_files :: "(string \<times> string) list" where
  "nested_files =
     [(''/boot/main.cfg'', text_of [''include sub/inner.cfg'']),
      (''/boot/sub/inner.cfg'', text_of [''label A'', ''kernel vmlinuz''])]"

subsection \<open>The order of the output, as the specification words it\<close>

text \<open>Removing duplicates, each identifier staying where it first occurs.\<close>

fun dedup_first :: "string list \<Rightarrow> string list" where
  "dedup_first [] = []"
| "dedup_first (x # xs) = x # dedup_first (filter (\<lambda>y. y \<noteq> x) xs)"

definition candidate_order :: "parser \<Rightarrow> string list" where
  "candidate_order p =
     (if nerfDefaultEntry p \<noteq> [] then [nerfDefaultEntry p] else []) @
     (if defaultEntry p \<noteq> [] then [defaultEntry p] else []) @
     labelOrder p"

text \<open>The identifiers that are left: deduplicated, those without an entry dropped.\<close>

definition surviving_ids :: "parser \<Rightarrow> string list" where
  "surviving_ids p =
     filter (\<lambda>l. map_of (linuxEntries p) l \<noteq> None) (dedup_first (candidate_order p))"

definition resolve_order :: "parser \<Rightarrow> LinuxImage list" where
  "resolve_order p = map (\<lambda>l. the (map_of (linuxEntries p) l)) (surviving_ids p)"

text \<open>The labels that were declared are the keys of the entries.\<close>

definition label_inv :: "parser \<Rightarrow> bool" where
  "label_inv c = (set (labelOrder c) = fst ` set (linuxEntries c))"

definition menu_files :: "(string \<times> string) list" where
  "menu_files =
     [(''/boot/syslinux.cfg'',
       text_of [''default ghost'', ''label A'', ''label B'', ''menu default'', ''label A'',
                ''nerfdefault C'', ''label C''])]"

definition menu_parser :: parser where
  "menu_parser =
     \<lparr>linuxEntries =
        [(''A'', \<lparr>Name = ''A'', Cmdline = [], Kernel = None, Initrd = None\<rparr>),
         (''B'', \<lparr>Name = ''B'', Cmdline = [], Kernel = None, Initrd = None\<rparr>),
         (''C'', \<lparr>Name = ''C'', Cmdline = [], Kernel = None, Initrd = None\<rparr>)],
      labelOrder = [''A'', ''B'', ''A'', ''C''], defaultEntry = ''B'',
      nerfDefaultEntry = ''C'', globalAppend = [], scope = scopeEntry, curEntry = ''C'',
      wd = boot_dir\<rparr>"

subsection \<open>The initrd pass, in words\<close>

text \<open>
  An option that the pass takes for an initrd: the text before its first equals
  sign is \<open>initrd\<close>. Its value is the text between the first equals sign and the
  second (or the end).
\<close>

definition initrd_option :: "string \<Rightarrow> bool" where
  "initrd_option opt = (take 7 opt = ''initrd='')"

definition initrd_value :: "string \<Rightarrow> string" where
  "initrd_value opt = takeWhile (\<lambda>c. c \<noteq> CHR ''='') (drop 7 opt)"

text \<open>
  What the pass does to one entry when every fetch succeeds: an entry with an
  initrd stays, an entry without one gets the handle of the last initrd option of
  its command line.
\<close>

definition last_initrd_fill :: "env \<Rightarrow> url option \<Rightarrow> LinuxImage \<Rightarrow> LinuxImage" where
  "last_initrd_fill E w l =
     (if Initrd l \<noteq> None then l
      else
        (case filter initrd_option (strings_Fields (Cmdline l)) of
           [] \<Rightarrow> l
         | m # ms \<Rightarrow>
             (case getFile E w (initrd_value (last (m # ms))) of
                Inl err \<Rightarrow> l
              | Inr h \<Rightarrow> l\<lparr>Initrd := Some h\<rparr>)))"


definition two_initrd_files :: "(string \<times> string) list" where
  "two_initrd_files =
     [(''/boot/syslinux.cfg'',
       text_of [''label A'', ''append initrd=first.img quiet initrd=second.img'',
                ''label B'', ''initrd explicit.img'', ''append initrd=other.img'',
                ''label C'', ''append quiet''])]"

definition two_initrd_parser :: parser where
  "two_initrd_parser =
     \<lparr>linuxEntries =
        [(''A'', \<lparr>Name = ''A'', Cmdline = ''initrd=first.img quiet initrd=second.img'',
                  Kernel = None, Initrd = None\<rparr>),
         (''B'', \<lparr>Name = ''B'', Cmdline = ''initrd=other.img'', Kernel = None,
                  Initrd = Some (ReaderAt (file_url ''/boot/explicit.img''))\<rparr>),
         (''C'', \<lparr>Name = ''C'', Cmdline = ''quiet'', Kernel = None, Initrd = None\<rparr>)],
      labelOrder = [''A'', ''B'', ''C''], defaultEntry = [], nerfDefaultEntry = [],
      globalAppend = [], scope = scopeEntry, curEntry = ''C'', wd = boot_dir\<rparr>"


definition include_files :: "(string \<times> string) list" where
  "include_files =
     [(''/boot/syslinux.cfg'',
       text_of [''label A'', ''include missing.cfg'', ''include broken.cfg'', ''label B''])]"

definition local_files :: "(string \<times> string) list" where
  "local_files =
     [(''/mnt/syslinux/syslinux.cfg'', text_of [''label A'']),
      (''/mnt/isolinux.cfg'', text_of [''label B''])]"

definition override_files :: "(string \<times> string) list" where
  "override_files =
     [(''/boot/syslinux.cfg'',
       text_of [''APPEND console=ttyS0 quiet'', ''LABEL linux'', ''APPEND root=/dev/sda1 ro''])]"

definition redeclared_files :: "(string \<times> string) list" where
  "redeclared_files =
     [(''/boot/syslinux.cfg'',
       text_of [''label A'', ''kernel k1'', ''label A'', ''kernel k2''])]"


subsection \<open>Worlds that resolve alike against one working directory\<close>

text \<open>
  Two worlds fetch alike and resolve every reference against the working directory
  \<open>w\<close> to the same URL; against any other working directory they may differ.
\<close>

definition same_at :: "url option \<Rightarrow> env \<Rightarrow> env \<Rightarrow> bool" where
  "same_at w E E' =
     ((\<forall>ref. parseURL E' ref w = parseURL E ref w) \<and>
      Fetch E' = Fetch E \<and> ReadAll E' = ReadAll E \<and> LazyFetch E' = LazyFetch E)"

text \<open>
  The disk of \<open>nested_files\<close>, with every path that is joined to a directory other
  than \<^verbatim>\<open>/boot\<close> sent to \<^verbatim>\<open>/nowhere\<close>.
\<close>

definition boot_only_disk :: env where
  "boot_only_disk =
     (disk nested_files [])\<lparr>filepath_Join :=
        (\<lambda>a b. if a = ''/boot'' then unix_Join a b else ''/nowhere'')\<rparr>"

text \<open>Labels are only ever added at the end of \<open>labelOrder\<close>.\<close>

definition grows_from :: "string list \<Rightarrow> parser \<Rightarrow> bool" where
  "grows_from ls c = (\<exists>rest. labelOrder c = ls @ rest)"

definition position_files :: "(string \<times> string) list" where
  "position_files =
     [(''/boot/syslinux.cfg'',
       text_of [''label B'', ''label A'', ''kernel k1'', ''label A'', ''kernel k2'',
                ''label C''])]"

text \<open>
  The identifiers of the output that come from the defaults of \<open>p\<close> and from the
  labels \<open>ls\<close>, in the order of the output.
\<close>

definition ids_before :: "parser \<Rightarrow> string list \<Rightarrow> string list" where
  "ids_before p ls =
     filter (\<lambda>l. map_of (linuxEntries p) l \<noteq> None)
       (dedup_first
          ((if nerfDefaultEntry p \<noteq> [] then [nerfDefaultEntry p] else []) @
           (if defaultEntry p \<noteq> [] then [defaultEntry p] else []) @ ls))"

text \<open>The parser after the first line of \<open>position_files\<close>, after the fifth, and at the end.\<close>

definition plain_entry :: "string \<Rightarrow> handle option \<Rightarrow> LinuxImage" where
  "plain_entry a k = \<lparr>Name = a, Cmdline = [], Kernel = k, Initrd = None\<rparr>"

definition position_before :: parser where
  "position_before =
     \<lparr>linuxEntries = [(''B'', plain_entry ''B'' None)], labelOrder = [''B''],
      defaultEntry = [], nerfDefaultEntry = [], globalAppend = [], scope = scopeEntry,
      curEntry = ''B'', wd = boot_dir\<rparr>"

definition position_four :: parser where
  "position_four =
     \<lparr>linuxEntries = [(''B'', plain_entry ''B'' None),
                      (''A'', plain_entry ''A'' (Some (ReaderAt (file_url ''/boot/k2''))))],
      labelOrder = [''B'', ''A'', ''A''],
      defaultEntry = [], nerfDefaultEntry = [], globalAppend = [], scope = scopeEntry,
      curEntry = ''A'', wd = boot_dir\<rparr>"

definition position_final :: parser where
  "position_final =
     \<lparr>linuxEntries = [(''B'', plain_entry ''B'' None),
                      (''A'', plain_entry ''A'' (Some (ReaderAt (file_url ''/boot/k2'')))),
                      (''C'', plain_entry ''C'' None)],
      labelOrder = [''B'', ''A'', ''A'', ''C''],
      defaultEntry = [], nerfDefaultEntry = [], globalAppend = [], scope = scopeEntry,
      curEntry = ''C'', wd = boot_dir\<rparr>"

section \<open>Invariants of the parser\<close>

subsection \<open>What the initrd pass leaves alone\<close>

lemma split_acc_not_Nil: "split_acc sep cur s \<noteq> []"
  by (induction s arbitrary: cur) auto

lemma initrd_scan_fields:
  "initrd_scan E w l opts = Return l' e \<Longrightarrow>
     Name l' = Name l \<and> Cmdline l' = Cmdline l \<and> Kernel l' = Kernel l"
  by (induction opts arbitrary: l) (auto split: list.splits if_splits sum.splits)

lemma initrd_scan_panic: "initrd_scan E w l opts = Panic p \<Longrightarrow> p = IndexOutOfRange"
  by (induction opts arbitrary: l) (auto split: list.splits if_splits sum.splits)

lemma backfill_entries_keys:
  "backfill_entries E w es = Return es' e \<Longrightarrow> map fst es' = map fst es"
  by (induction es arbitrary: es' e) (auto split: if_splits outcome.splits option.splits)

lemma backfill_entries_panic: "backfill_entries E w es = Panic p \<Longrightarrow> p = IndexOutOfRange"
  by (induction es) (auto split: if_splits outcome.splits option.splits dest: initrd_scan_panic)

subsection \<open>A rule for invariants\<close>

lemma case_include_ok:
  assumes "I c" and "\<And>c0 a r. I c0 \<Longrightarrow> inc c0 a = Some r \<Longrightarrow> ok I PP r"
    and "case_include inc c arg = Some r"
  shows "ok I PP r"
  using assms(1,3) assms(2)[of c arg]
  by (auto simp: case_include_def ok_def split: option.splits outcome.splits if_splits)

lemma process_line_ok:
  assumes "invariant_steps E I PP" and "I c"
    and "\<And>c0 a r. I c0 \<Longrightarrow> inc c0 a = Some r \<Longrightarrow> ok I PP r"
    and "process_line inc E c line = Some r"
  shows "ok I PP r"
proof -
  from assms(1,2) have steps:
    "\<And>a. I (c\<lparr>defaultEntry := a\<rparr>)" "\<And>a. I (c\<lparr>nerfDefaultEntry := a\<rparr>)"
    "\<And>a. I (case_menu c a)" "\<And>a. I (case_label c a)"
    "\<And>a. ok I PP (case_kernel E c a)" "\<And>a. ok I PP (case_initrd E c a)"
    "\<And>a. ok I PP (case_append c a)"
    by (simp_all add: invariant_steps_def)
  have here: "ok I PP (Return c None)"
    using assms(2) by (simp add: ok_def)
  have there: "\<And>c'. I c' \<Longrightarrow> ok I PP (Return c' None)"
    by (simp add: ok_def)
  show ?thesis
    using assms(4) here steps there case_include_ok[OF assms(2) assms(3)]
    by (auto simp: process_line_def Let_def split: if_splits)
qed

lemma lines_loop_ok:
  assumes "invariant_steps E I PP"
    and "\<And>c0 a r. I c0 \<Longrightarrow> inc c0 a = Some r \<Longrightarrow> ok I PP r"
  shows "I c \<Longrightarrow> lines_loop inc E c ls = Some r \<Longrightarrow> ok I PP r"
proof (induction ls arbitrary: c)
  case Nil
  then show ?case by (auto simp: ok_def)
next
  case (Cons l ls)
  show ?case
  proof (cases "process_line inc E c l")
    case None
    with Cons.prems show ?thesis by simp
  next
    case (Some r1)
    have r1: "ok I PP r1"
      using process_line_ok[OF assms(1) Cons.prems(1) assms(2) Some] .
    show ?thesis
    proof (cases "\<exists>c'. r1 = Return c' None")
      case True
      then obtain c' where c': "r1 = Return c' None" by blast
      with r1 have "I c'" by (simp add: ok_def)
      moreover from Cons.prems(2) Some c' have "lines_loop inc E c' ls = Some r" by simp
      ultimately show ?thesis by (rule Cons.IH)
    next
      case False
      with Cons.prems(2) Some have "r = r1"
        by (auto split: outcome.splits option.splits)
      with r1 show ?thesis by simp
    qed
  qed
qed

lemma parser_append_ok:
  assumes "invariant_steps E I PP"
    and "\<And>c0 a r. I c0 \<Longrightarrow> inc c0 a = Some r \<Longrightarrow> ok I PP r"
    and "I c" and "parser_append inc E c config = Some r"
  shows "ok I PP r"
proof (cases "lines_loop inc E c (strings_Split config CHR 0x0A)")
  case None
  with assms(4) show ?thesis by (simp add: parser_append_def)
next
  case (Some r1)
  have r1: "ok I PP r1"
    using lines_loop_ok[OF assms(1) assms(2) assms(3) Some] .
  show ?thesis
  proof (cases "\<exists>c'. r1 = Return c' None")
    case True
    then obtain c' where c': "r1 = Return c' None" by blast
    with r1 have "I c'" by (simp add: ok_def)
    with assms(1) have "ok I PP (backfill E c')" by (simp add: invariant_steps_def)
    moreover from assms(4) Some c' have "r = backfill E c'" by (simp add: parser_append_def)
    ultimately show ?thesis by simp
  next
    case False
    with assms(4) Some have "r = r1"
      by (auto simp: parser_append_def split: outcome.splits option.splits)
    with r1 show ?thesis by simp
  qed
qed

lemma appendFile_ok:
  assumes "invariant_steps E I PP"
  shows "I c \<Longrightarrow> appendFile n E c ref = Some r \<Longrightarrow> ok I PP r"
proof (induction n arbitrary: c ref r)
  case 0
  then show ?case by simp
next
  case (Suc n)
  have inc: "\<And>c0 a r. I c0 \<Longrightarrow> appendFile n E c0 a = Some r \<Longrightarrow> ok I PP r"
    using Suc.IH by blast
  have here: "ok I PP (Return c e)" for e
    using Suc.prems(1) by (simp add: ok_def)
  show ?case
    using Suc.prems(2) here parser_append_ok[OF assms inc Suc.prems(1)]
    by (auto split: sum.splits)
qed

subsection \<open>The current label is a key\<close>

lemma keys_set_entry [simp]:
  "fst ` set (linuxEntries (set_entry c k e)) = insert k (fst ` set (linuxEntries c))"
  by (simp add: set_entry_def dom_update)

lemma set_entry_fields [simp]:
  "scope (set_entry c k e) = scope c" "curEntry (set_entry c k e) = curEntry c"
  "wd (set_entry c k e) = wd c" "labelOrder (set_entry c k e) = labelOrder c"
  "defaultEntry (set_entry c k e) = defaultEntry c"
  "nerfDefaultEntry (set_entry c k e) = nerfDefaultEntry c"
  "globalAppend (set_entry c k e) = globalAppend c"
  by (simp_all add: set_entry_def)

lemma map_of_Some_key: "map_of al k = Some v \<Longrightarrow> k \<in> fst ` set al"
  using map_of_eq_None_iff[of al k] by auto

lemma keys_of_map_fst: "map fst es = map fst es' \<Longrightarrow> fst ` set es = fst ` set es'"
  by (metis set_map)

lemma backfill_cases:
  "(\<exists>p. backfill E c = Panic p \<and> p = IndexOutOfRange) \<or>
   (\<exists>es e. backfill E c = Return (c\<lparr>linuxEntries := es\<rparr>) e \<and>
      map fst es = map fst (linuxEntries c) \<and> fst ` set es = fst ` set (linuxEntries c))"
proof (cases "backfill_entries E (wd c) (linuxEntries c)")
  case (Return es e)
  then have "backfill E c = Return (c\<lparr>linuxEntries := es\<rparr>) e"
    by (simp add: backfill_def)
  moreover have "map fst es = map fst (linuxEntries c)"
    using Return by (rule backfill_entries_keys)
  ultimately show ?thesis
    using keys_of_map_fst by blast
next
  case (Panic p)
  then have "backfill E c = Panic p" by (simp add: backfill_def)
  with Panic show ?thesis
    using backfill_entries_panic by blast
qed

lemma key_inv_steps: "invariant_steps E key_inv (\<lambda>p. p \<noteq> NilDereference)"
  unfolding invariant_steps_def
proof (intro allI impI conjI)
  fix c a assume I: "key_inv c"
  show "key_inv (c\<lparr>defaultEntry := a\<rparr>)" "key_inv (c\<lparr>nerfDefaultEntry := a\<rparr>)"
    using I by (simp_all add: key_inv_def)
  show "key_inv (case_menu c a)"
    using I by (auto simp: key_inv_def case_menu_def Let_def split: option.splits)
  show "key_inv (case_label c a)"
    by (simp add: key_inv_def case_label_def Let_def)
  show "ok key_inv (\<lambda>p. p \<noteq> NilDereference) (case_kernel E c a)"
    using I by (auto simp: ok_def key_inv_def case_kernel_def split: option.splits sum.splits)
  show "ok key_inv (\<lambda>p. p \<noteq> NilDereference) (case_initrd E c a)"
    using I by (auto simp: ok_def key_inv_def case_initrd_def split: option.splits sum.splits)
  show "ok key_inv (\<lambda>p. p \<noteq> NilDereference) (case_append c a)"
    using I
    by (auto simp: ok_def key_inv_def case_append_def map_of_eq_None_iff
        split: option.splits scope.splits)
  show "ok key_inv (\<lambda>p. p \<noteq> NilDereference) (backfill E c)"
    using backfill_cases[of E c]
  proof (elim disjE exE conjE)
    fix p assume "backfill E c = Panic p" "p = IndexOutOfRange"
    then show ?thesis by (simp add: ok_def)
  next
    fix es e
    assume "backfill E c = Return (c\<lparr>linuxEntries := es\<rparr>) e"
      and "fst ` set es = fst ` set (linuxEntries c)"
    with I show ?thesis by (simp add: ok_def key_inv_def)
  qed
qed

text \<open>
  C10. The parser starts with \<open>key_inv\<close>; every line keeps it, whatever the line
  is and however deep the files it includes, and no line panics on a nil entry; so
  every parser that \<^verbatim>\<open>appendFile\<close> gives back has its current label among the
  keys once the scope is that of an entry, and the store of \<^verbatim>\<open>append\<close> through
  \<^verbatim>\<open>c.linuxEntries[c.curEntry]\<close> never meets a nil pointer.
\<close>

theorem entry_scope_label_is_key:
  "key_inv (newParser w) \<and>
   (\<forall>c line r. key_inv c \<and> process_line (appendFile n E) E c line = Some r \<longrightarrow>
      r \<noteq> Panic NilDereference \<and> (\<forall>c' e. r = Return c' e \<longrightarrow> key_inv c')) \<and>
   (\<forall>ref r. appendFile n E (newParser w) ref = Some r \<longrightarrow>
      r \<noteq> Panic NilDereference \<and> (\<forall>c' e. r = Return c' e \<longrightarrow> key_inv c'))"
proof -
  have init: "key_inv (newParser w)"
    by (simp add: key_inv_def newParser_def)
  have line: "r \<noteq> Panic NilDereference \<and> (\<forall>c' e. r = Return c' e \<longrightarrow> key_inv c')"
    if "key_inv c" and "process_line (appendFile n E) E c line = Some r" for c line r
  proof -
    have "ok key_inv (\<lambda>p. p \<noteq> NilDereference) r"
      using process_line_ok[OF key_inv_steps that(1) _ that(2)] appendFile_ok[OF key_inv_steps]
      by blast
    then show ?thesis by (auto simp: ok_def)
  qed
  have whole: "r \<noteq> Panic NilDereference \<and> (\<forall>c' e. r = Return c' e \<longrightarrow> key_inv c')"
    if "appendFile n E (newParser w) ref = Some r" for ref r
  proof -
    have "ok key_inv (\<lambda>p. p \<noteq> NilDereference) r"
      using appendFile_ok[OF key_inv_steps init that] .
    then show ?thesis by (auto simp: ok_def)
  qed
  show ?thesis
    using init line whole by blast
qed


theorem entry_scope_label_is_key_witness:
  "key_inv (newParser boot_dir) \<and>
   key_inv (case_label (newParser boot_dir) ''A'') \<and>
   process_line (appendFile 1 (disk quiet_files [])) (disk quiet_files [])
     (case_label (newParser boot_dir) ''A'') ''append quiet'' = Some (Return quiet_parser None) \<and>
   key_inv quiet_parser \<and>
   appendFile 1 (disk quiet_files []) (newParser boot_dir) ''syslinux.cfg''
     = Some (Return quiet_parser None)"
proof -
  let ?E = "disk quiet_files []"
  have k: "key_inv (case_label (newParser boot_dir) ''A'')"
    by code_simp
  have l: "process_line (appendFile 1 ?E) ?E (case_label (newParser boot_dir) ''A'')
             ''append quiet'' = Some (Return quiet_parser None)"
    by code_simp
  have f: "appendFile 1 ?E (newParser boot_dir) ''syslinux.cfg'' = Some (Return quiet_parser None)"
    by code_simp
  show ?thesis
    using entry_scope_label_is_key[of boot_dir 1 ?E] k l f by blast
qed

subsection \<open>The initrd pass on a bare option\<close>

text \<open>
  C3. A command line with the option \<open>initrd\<close> and no equals sign: the pass reads
  \<^verbatim>\<open>optkv[1]\<close> of a slice of length one, and the parse panics.
\<close>

theorem bare_initrd_option_panics:
  "ParseConfigFile 1 (disk bare_initrd_files []) ''syslinux.cfg'' boot_dir
     = Some (Panic IndexOutOfRange)"
  by code_simp

subsection \<open>The order of the output\<close>

lemma label_steps: "invariant_steps E label_inv (\<lambda>p. True)"
  unfolding invariant_steps_def
proof (intro allI impI conjI)
  fix c :: parser and a :: string assume I: "label_inv c"
  have upd: "label_inv (set_entry c (curEntry c) e')"
    if "map_of (linuxEntries c) (curEntry c) = Some e" for e e'
    using I map_of_Some_key[OF that] by (auto simp: label_inv_def)
  show "label_inv (c\<lparr>defaultEntry := a\<rparr>)" "label_inv (c\<lparr>nerfDefaultEntry := a\<rparr>)"
    using I by (simp_all add: label_inv_def)
  show "label_inv (case_menu c a)"
    using I upd by (auto simp: case_menu_def Let_def label_inv_def split: option.splits)
  show "label_inv (case_label c a)"
    using I by (simp add: label_inv_def case_label_def Let_def)
  show "ok label_inv (\<lambda>p. True) (case_kernel E c a)"
    using I upd by (auto simp: ok_def case_kernel_def split: option.splits sum.splits)
  show "ok label_inv (\<lambda>p. True) (case_initrd E c a)"
    using I upd by (auto simp: ok_def case_initrd_def split: option.splits sum.splits)
  show "ok label_inv (\<lambda>p. True) (case_append c a)"
    using I upd
    by (auto simp: ok_def case_append_def label_inv_def split: option.splits scope.splits)
  show "ok label_inv (\<lambda>p. True) (backfill E c)"
    using I backfill_cases[of E c] by (auto simp: ok_def label_inv_def)
qed

lemma filter_not_seen:
  "filter (\<lambda>y. y \<noteq> x \<and> y \<notin> seen) xs = filter (\<lambda>y. y \<notin> seen \<and> y \<noteq> x) xs"
  by (rule filter_cong) auto

lemma dedup_loop_spec:
  "dedup_loop acc seen xs = acc @ dedup_first (filter (\<lambda>y. y \<notin> seen) xs)"
  by (induction xs arbitrary: acc seen) (simp_all add: filter_not_seen)

lemma dedupStrings_spec: "dedupStrings xs = dedup_first xs"
  by (simp add: dedupStrings_def dedup_loop_spec)

lemma set_dedup_first: "set (dedup_first xs) = set xs"
  by (induction xs rule: dedup_first.induct) auto

lemma distinct_dedup_first: "distinct (dedup_first xs)"
  by (induction xs rule: dedup_first.induct) (auto simp: set_dedup_first)

lemma collect_images_spec:
  "collect_images es ls =
     map (\<lambda>l. the (map_of es l)) (filter (\<lambda>l. map_of es l \<noteq> None) ls)"
  by (induction ls) (auto split: option.splits)

lemma no_labels_no_output:
  assumes "label_inv p" and "labelOrder p = []"
  shows "resolve_order p = []"
proof -
  from assms have "linuxEntries p = []" by (simp add: label_inv_def)
  then show ?thesis by (simp add: resolve_order_def surviving_ids_def)
qed

text \<open>
  C5. When the files have been read without error into the parser \<open>p\<close>, the
  result of \<^verbatim>\<open>ParseConfigFile\<close> is \<open>resolve_order p\<close>: the entries of the
  identifiers of \<open>[nerfDefaultEntry] @ [defaultEntry] @ labelOrder\<close> (the defaults
  only when not empty), each identifier kept where it first occurs, those without
  an entry dropped. No identifier occurs twice among them.
\<close>

theorem output_order:
  assumes "appendFile n E (newParser w) ref = Some (Return p None)"
  shows "ParseConfigFile n E ref w = Some (Return (resolve_order p) None) \<and>
         distinct (surviving_ids p)"
proof -
  have "label_inv (newParser w)"
    by (simp add: label_inv_def newParser_def)
  then have inv: "label_inv p"
    using appendFile_ok[OF label_steps _ assms] by (simp add: ok_def)
  have "ParseConfigFile n E ref w = Some (Return (resolve_order p) None)"
  proof (cases "labelOrder p = []")
    case True
    with inv assms show ?thesis
      by (simp add: ParseConfigFile_def no_labels_no_output)
  next
    case False
    with assms show ?thesis
      by (simp add: ParseConfigFile_def Let_def collect_images_spec dedupStrings_spec
          resolve_order_def surviving_ids_def candidate_order_def)
  qed
  moreover have "distinct (surviving_ids p)"
    by (simp add: surviving_ids_def distinct_dedup_first)
  ultimately show ?thesis by simp
qed

theorem output_order_witness:
  "appendFile 1 (disk menu_files []) (newParser boot_dir) ''syslinux.cfg''
     = Some (Return menu_parser None) \<and>
   ParseConfigFile 1 (disk menu_files []) ''syslinux.cfg'' boot_dir
     = Some (Return (resolve_order menu_parser) None) \<and>
   surviving_ids menu_parser = [''C'', ''B'', ''A''] \<and>
   distinct (surviving_ids menu_parser)"
proof -
  have f: "appendFile 1 (disk menu_files []) (newParser boot_dir) ''syslinux.cfg''
             = Some (Return menu_parser None)"
    by code_simp
  have s: "surviving_ids menu_parser = [''C'', ''B'', ''A'']"
    by code_simp
  show ?thesis
    using output_order[OF f] f s by simp
qed

subsection \<open>The initrd pass\<close>

lemma split_acc_takeWhile:
  "split_acc sep cur s =
     (cur @ takeWhile (\<lambda>c. c \<noteq> sep) s) #
     (case dropWhile (\<lambda>c. c \<noteq> sep) s of [] \<Rightarrow> [] | _ # rest \<Rightarrow> split_acc sep [] rest)"
  by (induction s arbitrary: cur) auto

lemma Split_head:
  "strings_Split opt sep =
     takeWhile (\<lambda>c. c \<noteq> sep) opt #
     (case dropWhile (\<lambda>c. c \<noteq> sep) opt of [] \<Rightarrow> [] | _ # rest \<Rightarrow> strings_Split rest sep)"
  unfolding strings_Split_def using split_acc_takeWhile[of sep "[]" opt] by simp

lemma initrd_key_cases:
  "takeWhile (\<lambda>c. c \<noteq> CHR ''='') opt = ''initrd'' \<longleftrightarrow> opt = ''initrd'' \<or> initrd_option opt"
proof
  assume t: "takeWhile (\<lambda>c. c \<noteq> CHR ''='') opt = ''initrd''"
  have opt: "opt = ''initrd'' @ dropWhile (\<lambda>c. c \<noteq> CHR ''='') opt"
    using takeWhile_dropWhile_id[of "\<lambda>c. c \<noteq> CHR ''=''" opt] t by simp
  show "opt = ''initrd'' \<or> initrd_option opt"
  proof (cases "dropWhile (\<lambda>c. c \<noteq> CHR ''='') opt")
    case Nil
    with opt show ?thesis by simp
  next
    case (Cons d ds)
    then have "d = CHR ''=''"
      using hd_dropWhile[of "\<lambda>c. c \<noteq> CHR ''=''" opt] by auto
    with Cons opt have "opt = ''initrd='' @ ds" by simp
    then show ?thesis by (simp add: initrd_option_def)
  qed
next
  assume "opt = ''initrd'' \<or> initrd_option opt"
  then show "takeWhile (\<lambda>c. c \<noteq> CHR ''='') opt = ''initrd''"
  proof
    assume "opt = ''initrd''" then show ?thesis by simp
  next
    assume "initrd_option opt"
    then have "opt = ''initrd='' @ drop 7 opt"
      using append_take_drop_id[of 7 opt] by (simp add: initrd_option_def)
    then obtain r where "opt = ''initrd='' @ r" ..
    then show ?thesis by simp
  qed
qed


lemma Split_initrd_option:
  assumes "initrd_option opt"
  shows "\<exists>rest. strings_Split opt CHR ''='' = ''initrd'' # initrd_value opt # rest"
proof -
  from assms have "opt = ''initrd='' @ drop 7 opt"
    using append_take_drop_id[of 7 opt] by (simp add: initrd_option_def)
  then obtain r where r: "opt = ''initrd='' @ r" and d: "drop 7 opt = r"
    by (metis append_eq_conv_conj length_take assms initrd_option_def)
  have "strings_Split opt CHR ''='' = ''initrd'' # strings_Split r CHR ''=''"
    by (subst Split_head) (simp add: r)
  moreover have "\<exists>rest. strings_Split r CHR ''='' = takeWhile (\<lambda>c. c \<noteq> CHR ''='') r # rest"
    by (subst Split_head) simp
  ultimately show ?thesis
    by (auto simp: initrd_value_def d)
qed

lemma Split_other:
  assumes "opt \<noteq> ''initrd''" and "\<not> initrd_option opt"
  shows "\<exists>k vs. strings_Split opt CHR ''='' = k # vs \<and> k \<noteq> ''initrd''"
  using assms initrd_key_cases[of opt] by (subst Split_head) simp


lemma scan_skip:
  assumes "opt \<noteq> ''initrd''" and "\<not> initrd_option opt"
  shows "initrd_scan E w l (opt # opts) = initrd_scan E w l opts"
  using Split_other[OF assms] by auto

lemma scan_match:
  assumes "initrd_option opt"
  shows "initrd_scan E w l (opt # opts) =
     (case getFile E w (initrd_value opt) of
        Inl err \<Rightarrow> Return l (Some err)
      | Inr i \<Rightarrow> initrd_scan E w (l\<lparr>Initrd := Some i\<rparr>) opts)"
  using Split_initrd_option[OF assms] by auto

lemma scan_cases:
  obtains (bare) "opt = ''initrd''" | (match) "initrd_option opt"
  | (other) "opt \<noteq> ''initrd''" "\<not> initrd_option opt"
  by blast









subsection \<open>Which option gives the initrd\<close>

lemma initrd_scan_last:
  assumes "\<forall>opt \<in> set opts. opt \<noteq> ''initrd'' \<and>
             (initrd_option opt \<longrightarrow> \<not> isl (getFile E w (initrd_value opt)))"
  shows "initrd_scan E w l opts =
     Return (case filter initrd_option opts of
               [] \<Rightarrow> l
             | m # ms \<Rightarrow>
                 (case getFile E w (initrd_value (last (m # ms))) of
                    Inl err \<Rightarrow> l
                  | Inr h \<Rightarrow> l\<lparr>Initrd := Some h\<rparr>)) None"
  using assms
proof (induction opts arbitrary: l)
  case Nil
  then show ?case by simp
next
  case (Cons opt opts)
  then have IH: "initrd_scan E w l' opts =
     Return (case filter initrd_option opts of
               [] \<Rightarrow> l'
             | m # ms \<Rightarrow>
                 (case getFile E w (initrd_value (last (m # ms))) of
                    Inl err \<Rightarrow> l'
                  | Inr h \<Rightarrow> l'\<lparr>Initrd := Some h\<rparr>)) None" for l'
    by simp
  show ?case
  proof (cases opt rule: scan_cases)
    case bare
    with Cons.prems show ?thesis by simp
  next
    case match
    with Cons.prems obtain i where i: "getFile E w (initrd_value opt) = Inr i"
      by (cases "getFile E w (initrd_value opt)") auto
    have step: "initrd_scan E w l (opt # opts) = initrd_scan E w (l\<lparr>Initrd := Some i\<rparr>) opts"
      using match i by (simp add: scan_match del: initrd_scan.simps)
    show ?thesis
    proof (cases "filter initrd_option opts")
      case Nil
      with match i show ?thesis
        by (simp add: step IH del: initrd_scan.simps)
    next
      case (Cons m ms)
      have "last (m # ms) \<in> set (filter initrd_option opts)"
        using Cons last_in_set[of "m # ms"] by simp
      then have "last (m # ms) \<in> set opts" and "initrd_option (last (m # ms))"
        by simp_all
      with Cons.prems obtain h where h: "getFile E w (initrd_value (last (m # ms))) = Inr h"
        by (cases "getFile E w (initrd_value (last (m # ms)))") auto
      have "last (opt # m # ms) = last (m # ms)" by simp
      with match Cons h show ?thesis
        by (simp add: step IH del: initrd_scan.simps last.simps)
    qed
  next
    case other
    then show ?thesis
      by (simp add: scan_skip IH del: initrd_scan.simps)
  qed
qed

lemma backfill_entries_last:
  assumes "\<forall>kl \<in> set es. Initrd (snd kl) = None \<longrightarrow>
             (\<forall>opt \<in> set (strings_Fields (Cmdline (snd kl))).
                opt \<noteq> ''initrd'' \<and>
                (initrd_option opt \<longrightarrow> \<not> isl (getFile E w (initrd_value opt))))"
  shows "backfill_entries E w es =
           Return (map (\<lambda>kl. (fst kl, last_initrd_fill E w (snd kl))) es) None"
  using assms
proof (induction es)
  case Nil
  then show ?case by simp
next
  case (Cons kl es)
  then have IH: "backfill_entries E w es =
           Return (map (\<lambda>kl. (fst kl, last_initrd_fill E w (snd kl))) es) None"
    by simp
  show ?case
  proof (cases "Initrd (snd kl) \<noteq> None")
    case True
    then show ?thesis
      by (cases kl) (auto simp: IH last_initrd_fill_def)
  next
    case False
    with Cons.prems have
      "\<forall>opt \<in> set (strings_Fields (Cmdline (snd kl))).
         opt \<noteq> ''initrd'' \<and> (initrd_option opt \<longrightarrow> \<not> isl (getFile E w (initrd_value opt)))"
      by simp
    from initrd_scan_last[OF this, of "snd kl"] False show ?thesis
      by (simp add: IH last_initrd_fill_def)
  qed
qed

text \<open>
  C2, as the code has it. When no entry without an initrd has the bare option
  \<open>initrd\<close> and every initrd option of such an entry can be fetched, the pass
  returns without error and has given each entry without an initrd the handle of
  the value of the last initrd option of its command line, the value ending at the
  next equals sign; entries with an initrd, and entries without an initrd option,
  are as they were.
\<close>

theorem backfill_takes_last_initrd:
  assumes "\<forall>kl \<in> set (linuxEntries c). Initrd (snd kl) = None \<longrightarrow>
             (\<forall>opt \<in> set (strings_Fields (Cmdline (snd kl))).
                opt \<noteq> ''initrd'' \<and>
                (initrd_option opt \<longrightarrow> \<not> isl (getFile E (wd c) (initrd_value opt))))"
  shows "backfill E c =
           Return (c\<lparr>linuxEntries :=
                       map (\<lambda>kl. (fst kl, last_initrd_fill E (wd c) (snd kl))) (linuxEntries c)\<rparr>)
             None"
  using backfill_entries_last[OF assms] by (simp add: backfill_def)


theorem backfill_takes_last_initrd_witness:
  "backfill (disk two_initrd_files []) two_initrd_parser =
     Return (two_initrd_parser\<lparr>linuxEntries :=
        [(''A'', \<lparr>Name = ''A'', Cmdline = ''initrd=first.img quiet initrd=second.img'',
                  Kernel = None, Initrd = Some (ReaderAt (file_url ''/boot/second.img''))\<rparr>),
         (''B'', \<lparr>Name = ''B'', Cmdline = ''initrd=other.img'', Kernel = None,
                  Initrd = Some (ReaderAt (file_url ''/boot/explicit.img''))\<rparr>),
         (''C'', \<lparr>Name = ''C'', Cmdline = ''quiet'', Kernel = None, Initrd = None\<rparr>)]\<rparr>) None"
proof -
  let ?E = "disk two_initrd_files []"
  have h: "\<forall>kl \<in> set (linuxEntries two_initrd_parser). Initrd (snd kl) = None \<longrightarrow>
             (\<forall>opt \<in> set (strings_Fields (Cmdline (snd kl))).
                opt \<noteq> ''initrd'' \<and>
                (initrd_option opt \<longrightarrow>
                 \<not> isl (getFile ?E (wd two_initrd_parser) (initrd_value opt))))"
    by code_simp
  have m: "map (\<lambda>kl. (fst kl, last_initrd_fill ?E (wd two_initrd_parser) (snd kl)))
             (linuxEntries two_initrd_parser) =
        [(''A'', \<lparr>Name = ''A'', Cmdline = ''initrd=first.img quiet initrd=second.img'',
                  Kernel = None, Initrd = Some (ReaderAt (file_url ''/boot/second.img''))\<rparr>),
         (''B'', \<lparr>Name = ''B'', Cmdline = ''initrd=other.img'', Kernel = None,
                  Initrd = Some (ReaderAt (file_url ''/boot/explicit.img''))\<rparr>),
         (''C'', \<lparr>Name = ''C'', Cmdline = ''quiet'', Kernel = None, Initrd = None\<rparr>)]"
    by code_simp
  show ?thesis
    using backfill_takes_last_initrd[OF h] by (simp only: m)
qed

text \<open>
  C2, as stated, fails. The command line of \<open>A\<close> has the options
  \<^verbatim>\<open>initrd=first.img\<close> and \<^verbatim>\<open>initrd=second.img\<close>: the loop stores at each,
  without a break, and the initrd of \<open>A\<close> is that of the second, not of the first.
\<close>

theorem first_initrd_counterexample:
  "ParseConfigFile 1 (disk two_initrd_files []) ''syslinux.cfg'' boot_dir
     = Some (Return
         [\<lparr>Name = ''A'', Cmdline = ''initrd=first.img quiet initrd=second.img'',
           Kernel = None, Initrd = Some (ReaderAt (file_url ''/boot/second.img''))\<rparr>,
          \<lparr>Name = ''B'', Cmdline = ''initrd=other.img'', Kernel = None,
           Initrd = Some (ReaderAt (file_url ''/boot/explicit.img''))\<rparr>,
          \<lparr>Name = ''C'', Cmdline = ''quiet'', Kernel = None, Initrd = None\<rparr>] None) \<and>
   getFile (disk two_initrd_files []) boot_dir ''first.img''
     = Inr (ReaderAt (file_url ''/boot/first.img'')) \<and>
   ReaderAt (file_url ''/boot/second.img'') \<noteq> ReaderAt (file_url ''/boot/first.img'')"
  by code_simp

section \<open>Directives and errors\<close>

subsection \<open>A line with a directive and an argument\<close>

lemma directive_arg:
  assumes "args \<noteq> []"
  shows "(if length (k # args) = 2 then (k # args) ! 1 else strings_Join (drop 1 (k # args)) sep)
           = strings_Join args sep"
proof (cases args)
  case Nil
  with assms show ?thesis by simp
next
  case (Cons a as)
  then show ?thesis by (cases as) simp_all
qed

lemma process_line_fields:
  assumes "strings_Fields line = k # args" and "args \<noteq> []"
  shows "process_line inc E c line =
     (let directive = strings_ToLower k; arg = strings_Join args '' ''
      in if directive = ''default'' then Some (Return (c\<lparr>defaultEntry := arg\<rparr>) None)
         else if directive = ''nerfdefault'' then
           Some (Return (c\<lparr>nerfDefaultEntry := arg\<rparr>) None)
         else if directive = ''include'' then case_include inc c arg
         else if directive = ''menu'' then Some (Return (case_menu c arg) None)
         else if directive = ''label'' then Some (Return (case_label c arg) None)
         else if directive = ''kernel'' \<or> directive = ''linux'' then
           Some (case_kernel E c arg)
         else if directive = ''initrd'' then Some (case_initrd E c arg)
         else if directive = ''append'' then Some (case_append c arg)
         else Some (Return c None))"
proof -
  have len: "\<not> length (k # args) \<le> 1"
    using assms(2) by (cases args) simp_all
  show ?thesis
    unfolding process_line_def assms(1) Let_def
    using len directive_arg[OF assms(2), of k "'' ''"] by simp
qed

lemma process_line_include:
  assumes "strings_Fields line = k # args" and "args \<noteq> []"
    and "strings_ToLower k = ''include''"
  shows "process_line inc E c line = case_include inc c (strings_Join args '' '')"
  by (simp add: process_line_fields[OF assms(1,2)] assms(3))

lemma process_line_label:
  assumes "strings_Fields line = k # args" and "args \<noteq> []"
    and "strings_ToLower k = ''label''"
  shows "process_line inc E c line = Some (Return (case_label c (strings_Join args '' '')) None)"
  by (simp add: process_line_fields[OF assms(1,2)] assms(3))

lemma process_line_kernel:
  assumes "strings_Fields line = k # args" and "args \<noteq> []"
    and "strings_ToLower k = ''kernel''"
  shows "process_line inc E c line = Some (case_kernel E c (strings_Join args '' ''))"
  by (simp add: process_line_fields[OF assms(1,2)] assms(3))

lemma process_line_append:
  assumes "strings_Fields line = k # args" and "args \<noteq> []"
    and "strings_ToLower k = ''append''"
  shows "process_line inc E c line = Some (case_append c (strings_Join args '' ''))"
  by (simp add: process_line_fields[OF assms(1,2)] assms(3))

subsection \<open>Leaving the loop\<close>

lemma lines_loop_append:
  "lines_loop inc E c before = Some (Return c1 None) \<Longrightarrow>
     lines_loop inc E c (before @ rest) = lines_loop inc E c1 rest"
proof (induction before arbitrary: c)
  case Nil
  then show ?case by simp
next
  case (Cons l ls)
  show ?case
  proof (cases "process_line inc E c l")
    case None
    with Cons.prems show ?thesis by simp
  next
    case (Some r)
    show ?thesis
    proof (cases "\<exists>c'. r = Return c' None")
      case True
      then obtain c' where "r = Return c' None" by blast
      with Some Cons show ?thesis by simp
    next
      case False
      with Some Cons.prems have "Some r = Some (Return c1 None)"
        by (auto split: outcome.splits option.splits)
      with False show ?thesis by simp
    qed
  qed
qed

lemma lines_loop_error:
  assumes "lines_loop inc E c before = Some (Return c1 None)"
    and "process_line inc E c1 line = Some (Return c2 (Some e))"
  shows "lines_loop inc E c (before @ line # rest) = Some (Return c2 (Some e))"
  using lines_loop_append[OF assms(1), of "line # rest"] assms(2) by simp

subsection \<open>Errors of an include\<close>

lemma case_include_error:
  assumes "inc c arg = Some (Return c' (Some e))"
  shows "case_include inc c arg = Some (Return c' (if e = NotFound then None else Some e))"
  using assms by (simp add: case_include_def IsURLError_def)

lemma appendFile_fetch_error:
  assumes "parseURL E ref (wd c) = Inr u" and "Fetch E u = Inl e"
  shows "appendFile (Suc n) E c ref = Some (Return c (Some e))"
  using assms by simp

lemma parser_append_error:
  assumes "lines_loop inc E c (strings_Split config CHR 0x0A) = Some (Return c' (Some e))"
  shows "parser_append inc E c config = Some (Return c' (Some e))"
  using assms by (simp add: parser_append_def)

text \<open>
  C4. For a line that is an \<^verbatim>\<open>include\<close> directive: an error that the nested
  \<^verbatim>\<open>appendFile\<close> returns is dropped when it is \<open>NotFound\<close>, and the loop
  goes on; every other error is returned as it is. When it is the fetch of the
  included file that fails, the parser is as it was before the line. And when the
  line stands in the first file and its fetch fails with an error other than
  \<open>NotFound\<close>, \<^verbatim>\<open>ParseConfigFile\<close> returns that error.
\<close>

theorem include_error_classes:
  assumes "strings_Fields line = k # args" and "args \<noteq> []"
    and "strings_ToLower k = ''include''"
  shows
    "(\<forall>c' e. appendFile n E c (strings_Join args '' '') = Some (Return c' (Some e)) \<longrightarrow>
        process_line (appendFile n E) E c line
          = Some (Return c' (if e = NotFound then None else Some e))) \<and>
     (\<forall>u e. parseURL E (strings_Join args '' '') (wd c) = Inr u \<and> Fetch E u = Inl e \<longrightarrow>
        process_line (appendFile (Suc n) E) E c line
          = Some (Return c (if e = NotFound then None else Some e))) \<and>
     (\<forall>ref w u0 r0 config before after u e.
        parseURL E ref w = Inr u0 \<and> Fetch E u0 = Inr r0 \<and> ReadAll E r0 = Inr config \<and>
        strings_Split config CHR 0x0A = before @ line # after \<and>
        lines_loop (appendFile (Suc n) E) E (newParser w) before = Some (Return c None) \<and>
        parseURL E (strings_Join args '' '') (wd c) = Inr u \<and> Fetch E u = Inl e \<and>
        e \<noteq> NotFound \<longrightarrow>
        ParseConfigFile (Suc (Suc n)) E ref w = Some (Return [] (Some e)))"
proof -
  note inc = process_line_include[OF assms]
  have a: "process_line (appendFile n E) E c line
             = Some (Return c' (if e = NotFound then None else Some e))"
    if "appendFile n E c (strings_Join args '' '') = Some (Return c' (Some e))" for c' e
    using that by (simp only: inc case_include_error)
  have b: "process_line (appendFile (Suc n) E) E c line
             = Some (Return c (if e = NotFound then None else Some e))"
    if "parseURL E (strings_Join args '' '') (wd c) = Inr u" and "Fetch E u = Inl e" for u e
    using appendFile_fetch_error[OF that, of n]
    by (simp only: inc case_include_error)
  have t: "ParseConfigFile (Suc (Suc n)) E ref w = Some (Return [] (Some e))"
    if top: "parseURL E ref w = Inr u0" "Fetch E u0 = Inr r0" "ReadAll E r0 = Inr config"
      and split: "strings_Split config CHR 0x0A = before @ line # after"
      and pre: "lines_loop (appendFile (Suc n) E) E (newParser w) before = Some (Return c None)"
      and fail: "parseURL E (strings_Join args '' '') (wd c) = Inr u" "Fetch E u = Inl e"
      and other: "e \<noteq> NotFound"
    for ref w u0 r0 config before after u e
  proof -
    have "process_line (appendFile (Suc n) E) E c line = Some (Return c (Some e))"
      using b[OF fail] other by simp
    then have "lines_loop (appendFile (Suc n) E) E (newParser w) (before @ line # after)
                 = Some (Return c (Some e))"
      by (rule lines_loop_error[OF pre])
    then have "parser_append (appendFile (Suc n) E) E (newParser w) config
                 = Some (Return c (Some e))"
      by (simp only: parser_append_error split)
    moreover have "wd (newParser w) = w" by (simp add: newParser_def)
    ultimately have "appendFile (Suc (Suc n)) E (newParser w) ref = Some (Return c (Some e))"
      using top by simp
    then show ?thesis by (simp add: ParseConfigFile_def)
  qed
  show ?thesis
    using a b t by blast
qed

theorem include_error_classes_witness:
  "process_line (appendFile 1 (disk include_files [''/boot/broken.cfg'']))
     (disk include_files [''/boot/broken.cfg'']) (case_label (newParser boot_dir) ''A'')
     ''include missing.cfg'' = Some (Return (case_label (newParser boot_dir) ''A'') None) \<and>
   process_line (appendFile 1 (disk include_files [''/boot/broken.cfg'']))
     (disk include_files [''/boot/broken.cfg'']) (case_label (newParser boot_dir) ''A'')
     ''include broken.cfg''
     = Some (Return (case_label (newParser boot_dir) ''A'') (Some TransportError)) \<and>
   ParseConfigFile 2 (disk include_files [''/boot/broken.cfg'']) ''syslinux.cfg'' boot_dir
     = Some (Return [] (Some TransportError))"
proof -
  let ?E = "disk include_files [''/boot/broken.cfg'']"
  let ?c = "case_label (newParser boot_dir) ''A''"
  have m: "strings_Fields ''include missing.cfg'' = ''include'' # [''missing.cfg'']"
    and b: "strings_Fields ''include broken.cfg'' = ''include'' # [''broken.cfg'']"
    and ne: "[''missing.cfg''] \<noteq> []" "[''broken.cfg''] \<noteq> []"
    and low: "strings_ToLower ''include'' = ''include''"
    by code_simp+
  have um: "parseURL ?E (strings_Join [''missing.cfg''] '' '') (wd ?c)
              = Inr (file_url ''/boot/missing.cfg'') \<and>
            Fetch ?E (file_url ''/boot/missing.cfg'') = Inl NotFound"
    by code_simp
  have ub: "parseURL ?E (strings_Join [''broken.cfg''] '' '') (wd ?c)
              = Inr (file_url ''/boot/broken.cfg'') \<and>
            Fetch ?E (file_url ''/boot/broken.cfg'') = Inl TransportError"
    by code_simp
  have nested: "appendFile 1 ?E ?c (strings_Join [''broken.cfg''] '' '')
                  = Some (Return ?c (Some TransportError))"
    by code_simp
  have top: "parseURL ?E ''syslinux.cfg'' boot_dir = Inr (file_url ''/boot/syslinux.cfg'') \<and>
             Fetch ?E (file_url ''/boot/syslinux.cfg'') = Inr (file_url ''/boot/syslinux.cfg'') \<and>
             ReadAll ?E (file_url ''/boot/syslinux.cfg'')
               = Inr (text_of [''label A'', ''include missing.cfg'', ''include broken.cfg'',
                               ''label B''])"
    by code_simp
  have split: "strings_Split (text_of [''label A'', ''include missing.cfg'',
                    ''include broken.cfg'', ''label B'']) CHR 0x0A
                 = [''label A'', ''include missing.cfg''] @ ''include broken.cfg'' # [''label B'']"
    by code_simp
  have pre: "lines_loop (appendFile (Suc 0) ?E) ?E (newParser boot_dir)
               [''label A'', ''include missing.cfg''] = Some (Return ?c None)"
    by code_simp
  have "process_line (appendFile 1 ?E) ?E ?c ''include missing.cfg'' = Some (Return ?c None)"
    using include_error_classes[OF m ne(1) low, of 0 ?E ?c] um by simp
  moreover have "process_line (appendFile 1 ?E) ?E ?c ''include broken.cfg''
                   = Some (Return ?c (Some TransportError))"
    using include_error_classes[OF b ne(2) low, of 1 ?E ?c] nested by simp
  moreover have "ParseConfigFile 2 ?E ''syslinux.cfg'' boot_dir
                   = Some (Return [] (Some TransportError))"
    using include_error_classes[OF b ne(2) low, of 0 ?E ?c] top split pre ub
    by (simp only: numeral_2_eq_2) blast
  ultimately show ?thesis by simp
qed

subsection \<open>Probing a local directory\<close>

lemma probe_loop_skip:
  assumes "\<forall>x \<in> set before. \<exists>i. probe_one n E d x = Some (Return i (Some NotFound))"
  shows "probe_loop n E d (before @ rest) = probe_loop n E d rest"
  using assms
proof (induction before)
  case Nil
  then show ?case by simp
next
  case (Cons x xs)
  then obtain i where "probe_one n E d x = Some (Return i (Some NotFound))"
    by auto
  with Cons show ?case by (simp add: IsURLError_def)
qed

lemma probe_loop_stop:
  assumes "probe_one n E d r = Some (Return imgs err)" and "err \<noteq> Some NotFound"
  shows "probe_loop n E d (r # rest) = Some (Return imgs err)"
  using assms by (cases err) (simp_all add: IsURLError_def)

text \<open>
  C9. \<^verbatim>\<open>ParseLocalConfig\<close> goes to the next candidate only when the parse of
  a candidate returns the error \<open>NotFound\<close>. The first candidate whose parse
  returns anything else, images or another error, gives the result at once; when
  every candidate returns \<open>NotFound\<close> the result is the error that no valid
  configuration was found.
\<close>

theorem local_probe:
  "(\<forall>before r rest imgs err.
      probeIsolinuxFiles E = before @ r # rest \<and>
      (\<forall>x \<in> set before. \<exists>i. probe_one n E d x = Some (Return i (Some NotFound))) \<and>
      probe_one n E d r = Some (Return imgs err) \<and> err \<noteq> Some NotFound \<longrightarrow>
      ParseLocalConfig n E d = Some (Return imgs err)) \<and>
   ((\<forall>x \<in> set (probeIsolinuxFiles E).
       \<exists>i. probe_one n E d x = Some (Return i (Some NotFound))) \<longrightarrow>
      ParseLocalConfig n E d = Some (Return [] (Some NoValidConfig)))"
proof -
  have a: "ParseLocalConfig n E d = Some (Return imgs err)"
    if "probeIsolinuxFiles E = before @ r # rest"
      and "\<forall>x \<in> set before. \<exists>i. probe_one n E d x = Some (Return i (Some NotFound))"
      and "probe_one n E d r = Some (Return imgs err)" and "err \<noteq> Some NotFound"
    for before r rest imgs err
    using probe_loop_skip[OF that(2), of "r # rest"] probe_loop_stop[OF that(3,4), of rest]
    by (simp add: ParseLocalConfig_def that(1))
  have b: "ParseLocalConfig n E d = Some (Return [] (Some NoValidConfig))"
    if "\<forall>x \<in> set (probeIsolinuxFiles E).
          \<exists>i. probe_one n E d x = Some (Return i (Some NotFound))"
    using probe_loop_skip[OF that, of "[]"] by (simp add: ParseLocalConfig_def)
  show ?thesis
    using a b by blast
qed

theorem local_probe_witness:
  "ParseLocalConfig 1 (disk local_files []) ''/mnt''
     = Some (Return [\<lparr>Name = ''A'', Cmdline = [], Kernel = None, Initrd = None\<rparr>] None) \<and>
   ParseLocalConfig 1 (disk local_files [''/mnt/isolinux/syslinux.cfg'']) ''/mnt''
     = Some (Return [] (Some TransportError)) \<and>
   ParseLocalConfig 1 (disk local_files []) ''/media''
     = Some (Return [] (Some NoValidConfig))"
proof -
  let ?E = "disk local_files []"
  let ?B = "disk local_files [''/mnt/isolinux/syslinux.cfg'']"
  have c1: "probeIsolinuxFiles ?E =
      [''boot/isolinux/isolinux.cfg'', ''boot/isolinux/syslinux.cfg'', ''isolinux/isolinux.cfg'',
       ''isolinux/syslinux.cfg'', ''boot/syslinux/isolinux.cfg'', ''boot/syslinux/syslinux.cfg'',
       ''syslinux/isolinux.cfg''] @ ''syslinux/syslinux.cfg'' # [''isolinux.cfg'', ''syslinux.cfg'']"
    by code_simp
  have n1: "\<forall>x \<in> set [''boot/isolinux/isolinux.cfg'', ''boot/isolinux/syslinux.cfg'',
       ''isolinux/isolinux.cfg'', ''isolinux/syslinux.cfg'', ''boot/syslinux/isolinux.cfg'',
       ''boot/syslinux/syslinux.cfg'', ''syslinux/isolinux.cfg''].
       probe_one 1 ?E ''/mnt'' x = Some (Return [] (Some NotFound))"
    by code_simp
  have f1: "probe_one 1 ?E ''/mnt'' ''syslinux/syslinux.cfg''
              = Some (Return [\<lparr>Name = ''A'', Cmdline = [], Kernel = None, Initrd = None\<rparr>] None)"
    by code_simp
  have r1: "ParseLocalConfig 1 ?E ''/mnt''
     = Some (Return [\<lparr>Name = ''A'', Cmdline = [], Kernel = None, Initrd = None\<rparr>] None)"
    using local_probe[of ?E 1 "''/mnt''"] c1 n1 f1 by blast
  have c2: "probeIsolinuxFiles ?B =
      [''boot/isolinux/isolinux.cfg'', ''boot/isolinux/syslinux.cfg'', ''isolinux/isolinux.cfg'']
      @ ''isolinux/syslinux.cfg'' # [''boot/syslinux/isolinux.cfg'',
       ''boot/syslinux/syslinux.cfg'', ''syslinux/isolinux.cfg'', ''syslinux/syslinux.cfg'',
       ''isolinux.cfg'', ''syslinux.cfg'']"
    by code_simp
  have n2: "\<forall>x \<in> set [''boot/isolinux/isolinux.cfg'', ''boot/isolinux/syslinux.cfg'',
       ''isolinux/isolinux.cfg'']. probe_one 1 ?B ''/mnt'' x = Some (Return [] (Some NotFound))"
    by code_simp
  have f2: "probe_one 1 ?B ''/mnt'' ''isolinux/syslinux.cfg''
              = Some (Return [] (Some TransportError))"
    by code_simp
  have r2: "ParseLocalConfig 1 ?B ''/mnt'' = Some (Return [] (Some TransportError))"
    using local_probe[of ?B 1 "''/mnt''"] c2 n2 f2 by blast
  have n3: "\<forall>x \<in> set (probeIsolinuxFiles ?E).
       probe_one 1 ?E ''/media'' x = Some (Return [] (Some NotFound))"
    by code_simp
  have r3: "ParseLocalConfig 1 ?E ''/media'' = Some (Return [] (Some NoValidConfig))"
    using local_probe[of ?E 1 "''/media''"] n3 by blast
  show ?thesis
    using r1 r2 r3 by simp
qed

subsection \<open>Command lines\<close>

lemma backfill_entries_lookup:
  "backfill_entries E w es = Return es' e \<Longrightarrow> map_of es k = Some l \<Longrightarrow>
     \<exists>l'. map_of es' k = Some l' \<and> Name l' = Name l \<and> Cmdline l' = Cmdline l \<and>
          Kernel l' = Kernel l"
proof (induction es arbitrary: es' e)
  case Nil
  then show ?case by simp
next
  case (Cons kl es)
  show ?case
  proof (cases "Initrd (snd kl) \<noteq> None")
    case True
    with Cons.prems(1) obtain rest' where
      r: "backfill_entries E w es = Return rest' e" and e: "es' = kl # rest'"
      by (auto split: outcome.splits)
    show ?thesis
    proof (cases "fst kl = k")
      case True
      with Cons.prems(2) e show ?thesis by (cases kl) auto
    next
      case False
      with Cons.prems(2) have "map_of es k = Some l" by (cases kl) auto
      from Cons.IH[OF r this] False e show ?thesis by (cases kl) auto
    qed
  next
    case False
    then obtain label e1 where
      s: "initrd_scan E w (snd kl) (strings_Fields (Cmdline (snd kl))) = Return label e1"
      using Cons.prems(1) by (auto split: outcome.splits)
    note same = initrd_scan_fields[OF s]
    show ?thesis
    proof (cases "fst kl = k")
      case True
      with Cons.prems(2) have l: "snd kl = l" by (cases kl) auto
      from Cons.prems(1) False s have "\<exists>rest'. es' = (fst kl, label) # rest'"
        by (auto split: outcome.splits option.splits)
      with True same l show ?thesis by auto
    next
      case False
      with Cons.prems(2) have m: "map_of es k = Some l" by (cases kl) auto
      show ?thesis
      proof (cases e1)
        case None
        with Cons.prems(1) \<open>\<not> Initrd (snd kl) \<noteq> None\<close> s obtain rest' where
          r: "backfill_entries E w es = Return rest' e" and e: "es' = (fst kl, label) # rest'"
          by (auto split: outcome.splits)
        from Cons.IH[OF r m] False e show ?thesis by auto
      next
        case (Some err)
        with Cons.prems(1) \<open>\<not> Initrd (snd kl) \<noteq> None\<close> s
        have "es' = (fst kl, label) # es" by auto
        with False m show ?thesis by auto
      qed
    qed
  qed
qed

lemma backfill_lookup:
  assumes "backfill E c = Return c' e" and "map_of (linuxEntries c) k = Some l"
  shows "\<exists>l'. map_of (linuxEntries c') k = Some l' \<and> Name l' = Name l \<and>
               Cmdline l' = Cmdline l \<and> Kernel l' = Kernel l"
proof -
  from assms(1) obtain es' where
    "backfill_entries E (wd c) (linuxEntries c) = Return es' e" and "linuxEntries c' = es'"
    by (auto simp: backfill_def split: outcome.splits)
  with backfill_entries_lookup[OF _ assms(2)] show ?thesis by simp
qed

lemma map_of_set_entry [simp]:
  "map_of (linuxEntries (set_entry c k e)) = (map_of (linuxEntries c))(k \<mapsto> e)"
  by (simp add: set_entry_def update_conv')

text \<open>
  C6. From a parser in the global scope, the lines \<^verbatim>\<open>append X\<close>, \<^verbatim>\<open>label A\<close>,
  \<^verbatim>\<open>append Y\<close> (\<open>Y\<close> not the single minus) leave the entry \<open>A\<close> with the command
  line \<open>Y\<close> and nothing of \<open>X\<close>, and the initrd pass that follows does not change
  it. The first line, an append in the global scope, sets \<open>globalAppend\<close> and
  nothing else, so it changes no entry; \<open>A\<close> takes the value of \<open>globalAppend\<close>
  when it is declared.
\<close>

theorem entry_append_replaces:
  assumes "strings_Fields l1 = k1 # X" and "X \<noteq> []" and "strings_ToLower k1 = ''append''"
    and "strings_Fields l2 = k2 # A" and "A \<noteq> []" and "strings_ToLower k2 = ''label''"
    and "strings_Fields l3 = k3 # Y" and "Y \<noteq> []" and "strings_ToLower k3 = ''append''"
    and "strings_Join Y '' '' \<noteq> ''-''"
    and "scope c = scopeGlobal"
  shows
    "process_line inc E c l1 = Some (Return (c\<lparr>globalAppend := strings_Join X '' ''\<rparr>) None) \<and>
     (\<exists>c2. lines_loop inc E c [l1, l2] = Some (Return c2 None) \<and>
        map_of (linuxEntries c2) (strings_Join A '' '') =
          Some \<lparr>Name = strings_Join A '' '', Cmdline = strings_Join X '' '',
                Kernel = None, Initrd = None\<rparr>) \<and>
     (\<exists>c3. lines_loop inc E c [l1, l2, l3] = Some (Return c3 None) \<and>
        map_of (linuxEntries c3) (strings_Join A '' '') =
          Some \<lparr>Name = strings_Join A '' '', Cmdline = strings_Join Y '' '',
                Kernel = None, Initrd = None\<rparr> \<and>
        (\<forall>c4 e. backfill E c3 = Return c4 e \<longrightarrow>
           (\<exists>l. map_of (linuxEntries c4) (strings_Join A '' '') = Some l \<and>
                Cmdline l = strings_Join Y '' '')))"
proof -
  let ?x = "strings_Join X '' ''" and ?a = "strings_Join A '' ''" and ?y = "strings_Join Y '' ''"
  let ?c1 = "c\<lparr>globalAppend := ?x\<rparr>"
  let ?c2 = "case_label ?c1 ?a"
  let ?c3 = "set_entry ?c2 ?a \<lparr>Name = ?a, Cmdline = ?y, Kernel = None, Initrd = None\<rparr>"
  have s1: "process_line inc E c l1 = Some (Return ?c1 None)"
    using assms(11) by (simp add: process_line_append[OF assms(1-3)] case_append_def)
  have s2: "process_line inc E ?c1 l2 = Some (Return ?c2 None)"
    by (rule process_line_label[OF assms(4-6)])
  have e2: "map_of (linuxEntries ?c2) ?a =
              Some \<lparr>Name = ?a, Cmdline = ?x, Kernel = None, Initrd = None\<rparr>"
    by (simp add: case_label_def Let_def)
  have "scope ?c2 = scopeEntry" "curEntry ?c2 = ?a"
    by (simp_all add: case_label_def Let_def)
  with e2 assms(10) have "case_append ?c2 ?y = Return ?c3 None"
    by (simp add: case_append_def)
  then have s3: "process_line inc E ?c2 l3 = Some (Return ?c3 None)"
    by (simp add: process_line_append[OF assms(7-9)])
  have e3: "map_of (linuxEntries ?c3) ?a =
              Some \<lparr>Name = ?a, Cmdline = ?y, Kernel = None, Initrd = None\<rparr>"
    by simp
  have f3: "\<exists>l. map_of (linuxEntries c4) ?a = Some l \<and> Cmdline l = ?y"
    if "backfill E ?c3 = Return c4 e" for c4 e
    using backfill_lookup[OF that e3] by auto
  have "lines_loop inc E c [l1, l2] = Some (Return ?c2 None)"
    using s1 s2 by simp
  moreover have "lines_loop inc E c [l1, l2, l3] = Some (Return ?c3 None)"
    using s1 s2 s3 by simp
  ultimately show ?thesis
    using s1 e2 e3 f3 by blast
qed


theorem entry_append_replaces_witness:
  "scope (newParser boot_dir) = scopeGlobal \<and>
   strings_Join [''root=/dev/sda1'', ''ro''] '' '' = ''root=/dev/sda1 ro'' \<and>
   ''root=/dev/sda1 ro'' \<noteq> ''-'' \<and>
   process_line (appendFile 0 (disk override_files [])) (disk override_files [])
     (newParser boot_dir) ''APPEND console=ttyS0 quiet''
     = Some (Return ((newParser boot_dir)\<lparr>globalAppend := ''console=ttyS0 quiet''\<rparr>) None) \<and>
   (\<exists>c3. lines_loop (appendFile 0 (disk override_files [])) (disk override_files [])
            (newParser boot_dir)
            [''APPEND console=ttyS0 quiet'', ''LABEL linux'', ''APPEND root=/dev/sda1 ro'']
            = Some (Return c3 None) \<and>
         map_of (linuxEntries c3) ''linux'' =
           Some \<lparr>Name = ''linux'', Cmdline = ''root=/dev/sda1 ro'', Kernel = None,
                 Initrd = None\<rparr>) \<and>
   ParseConfigFile 1 (disk override_files []) ''syslinux.cfg'' boot_dir
     = Some (Return [\<lparr>Name = ''linux'', Cmdline = ''root=/dev/sda1 ro'', Kernel = None,
                      Initrd = None\<rparr>] None)"
proof -
  let ?E = "disk override_files []"
  have l1: "strings_Fields ''APPEND console=ttyS0 quiet'' = ''APPEND'' # [''console=ttyS0'', ''quiet'']"
    and l2: "strings_Fields ''LABEL linux'' = ''LABEL'' # [''linux'']"
    and l3: "strings_Fields ''APPEND root=/dev/sda1 ro'' = ''APPEND'' # [''root=/dev/sda1'', ''ro'']"
    and k1: "strings_ToLower ''APPEND'' = ''append''"
    and k2: "strings_ToLower ''LABEL'' = ''label''"
    and j: "strings_Join [''console=ttyS0'', ''quiet''] '' '' = ''console=ttyS0 quiet''"
      "strings_Join [''linux''] '' '' = ''linux''"
      "strings_Join [''root=/dev/sda1'', ''ro''] '' '' = ''root=/dev/sda1 ro''"
    and y: "strings_Join [''root=/dev/sda1'', ''ro''] '' '' \<noteq> ''-''"
    and g: "scope (newParser boot_dir) = scopeGlobal"
    by code_simp+
  have p: "ParseConfigFile 1 ?E ''syslinux.cfg'' boot_dir
     = Some (Return [\<lparr>Name = ''linux'', Cmdline = ''root=/dev/sda1 ro'', Kernel = None,
                      Initrd = None\<rparr>] None)"
    by code_simp
  have ne: "[''console=ttyS0'', ''quiet''] \<noteq> []" "[''linux''] \<noteq> []"
    "[''root=/dev/sda1'', ''ro''] \<noteq> []"
    by simp_all
  have y': "''root=/dev/sda1 ro'' \<noteq> ''-''"
    by simp
  have t: "process_line (appendFile 0 ?E) ?E (newParser boot_dir) ''APPEND console=ttyS0 quiet''
      = Some (Return ((newParser boot_dir)\<lparr>globalAppend := ''console=ttyS0 quiet''\<rparr>) None) \<and>
    (\<exists>c3. lines_loop (appendFile 0 ?E) ?E (newParser boot_dir)
            [''APPEND console=ttyS0 quiet'', ''LABEL linux'', ''APPEND root=/dev/sda1 ro'']
            = Some (Return c3 None) \<and>
         map_of (linuxEntries c3) ''linux'' =
           Some \<lparr>Name = ''linux'', Cmdline = ''root=/dev/sda1 ro'', Kernel = None,
                 Initrd = None\<rparr>)"
    using entry_append_replaces[OF l1 ne(1) k1 l2 ne(2) k2 l3 ne(3) k1 y g,
        of "appendFile 0 ?E" ?E]
    unfolding j by blast
  show ?thesis
    using t p g j(3) y' by blast
qed

subsection \<open>A label declared twice\<close>

lemma dedup_first_twice: "dedup_first (xs @ [a, a]) = dedup_first (xs @ [a])"
proof (induction xs rule: dedup_first.induct)
  case 1
  then show ?case by simp
next
  case (2 x xs)
  then show ?case by (cases "a = x") simp_all
qed

lemma case_label_fields:
  "linuxEntries (case_label c a) =
     AList.update a \<lparr>Name = a, Cmdline = globalAppend c, Kernel = None, Initrd = None\<rparr>
       (linuxEntries c)"
  "labelOrder (case_label c a) = labelOrder c @ [a]"
  "scope (case_label c a) = scopeEntry" "curEntry (case_label c a) = a"
  "wd (case_label c a) = wd c" "globalAppend (case_label c a) = globalAppend c"
  "defaultEntry (case_label c a) = defaultEntry c"
  "nerfDefaultEntry (case_label c a) = nerfDefaultEntry c"
  by (simp_all add: case_label_def Let_def set_entry_def)

lemma label_then_kernel:
  assumes "strings_Fields l1 = k1 # A" and "A \<noteq> []" and "strings_ToLower k1 = ''label''"
    and "strings_Fields l2 = k2 # K" and "K \<noteq> []" and "strings_ToLower k2 = ''kernel''"
    and "getFile E (wd c) (strings_Join K '' '') = Inr h"
  shows "lines_loop inc E c [l1, l2] =
     Some (Return (set_entry (case_label c (strings_Join A '' '')) (strings_Join A '' '')
       \<lparr>Name = strings_Join A '' '', Cmdline = globalAppend c, Kernel = Some h,
         Initrd = None\<rparr>) None)"
proof -
  let ?a = "strings_Join A '' ''"
  let ?c1 = "case_label c ?a"
  have "map_of (linuxEntries ?c1) (curEntry ?c1) =
          Some \<lparr>Name = ?a, Cmdline = globalAppend c, Kernel = None, Initrd = None\<rparr>"
    by (simp add: case_label_fields update_conv')
  then have "case_kernel E ?c1 (strings_Join K '' '') =
     Return (set_entry ?c1 ?a
       \<lparr>Name = ?a, Cmdline = globalAppend c, Kernel = Some h, Initrd = None\<rparr>) None"
    using assms(7) by (simp add: case_kernel_def case_label_fields)
  then show ?thesis
    by (simp add: process_line_label[OF assms(1-3)] process_line_kernel[OF assms(4-6)])
qed


lemma count_list_distinct: "distinct xs \<Longrightarrow> x \<in> set xs \<Longrightarrow> count_list xs x = 1"
  by (induction xs) (auto simp: count_list_0_iff)

lemma redeclared_states:
  assumes "strings_Fields l1 = k1 # A" and "A \<noteq> []" and "strings_ToLower k1 = ''label''"
    and "strings_Fields l2 = k2 # K1" and "K1 \<noteq> []" and "strings_ToLower k2 = ''kernel''"
    and "strings_Fields l3 = k3 # A" and "strings_ToLower k3 = ''label''"
    and "strings_Fields l4 = k4 # K2" and "K2 \<noteq> []" and "strings_ToLower k4 = ''kernel''"
    and "getFile E (wd c) (strings_Join K1 '' '') = Inr h1"
    and "getFile E (wd c) (strings_Join K2 '' '') = Inr h2"
  shows
    "\<exists>c2 c4.
       lines_loop inc E c [l1, l2] = Some (Return c2 None) \<and>
       lines_loop inc E c [l1, l2, l3, l4] = Some (Return c4 None) \<and>
       map_of (linuxEntries c4) (strings_Join A '' '') =
         Some \<lparr>Name = strings_Join A '' '', Cmdline = globalAppend c, Kernel = Some h2,
               Initrd = None\<rparr> \<and>
       labelOrder c4 = labelOrder c @ [strings_Join A '' '', strings_Join A '' ''] \<and>
       surviving_ids c4 = surviving_ids c2 \<and>
       count_list (surviving_ids c4) (strings_Join A '' '') = 1 \<and>
       (\<forall>n ref u0 r0 config.
          c = newParser (wd c) \<and> inc = appendFile n E \<and>
          parseURL E ref (wd c) = Inr u0 \<and> Fetch E u0 = Inr r0 \<and>
          ReadAll E r0 = Inr config \<and> strings_Split config CHR 0x0A = [l1, l2, l3, l4] \<longrightarrow>
          ParseConfigFile (Suc n) E ref (wd c) =
            Some (Return [\<lparr>Name = strings_Join A '' '', Cmdline = [], Kernel = Some h2,
                           Initrd = None\<rparr>] None))"
proof -
  let ?a = "strings_Join A '' ''"
  let ?F1 = "\<lparr>Name = ?a, Cmdline = globalAppend c, Kernel = Some h1, Initrd = None\<rparr>"
  let ?F2 = "\<lparr>Name = ?a, Cmdline = globalAppend c, Kernel = Some h2, Initrd = None\<rparr>"
  let ?c2 = "set_entry (case_label c ?a) ?a ?F1"
  let ?c4 = "set_entry (case_label ?c2 ?a) ?a ?F2"
  have first: "lines_loop inc E c [l1, l2] = Some (Return ?c2 None)"
    by (rule label_then_kernel[OF assms(1-6) assms(12)])
  have "wd ?c2 = wd c" and g: "globalAppend ?c2 = globalAppend c"
    by (simp_all add: case_label_fields)
  then have "getFile E (wd ?c2) (strings_Join K2 '' '') = Inr h2"
    using assms(13) by simp
  from label_then_kernel[OF assms(7) assms(2) assms(8) assms(9-11) this, of inc]
  have second: "lines_loop inc E ?c2 [l3, l4] = Some (Return ?c4 None)"
    by (simp only: g)
  have both: "lines_loop inc E c [l1, l2, l3, l4] = Some (Return ?c4 None)"
    using lines_loop_append[OF first, of "[l3, l4]"] second by simp
  have entry: "map_of (linuxEntries ?c4) ?a = Some ?F2"
    by simp
  have order: "labelOrder ?c4 = labelOrder c @ [?a, ?a]"
    by (simp add: case_label_fields)
  have keys: "(map_of (linuxEntries ?c4) l \<noteq> None) = (map_of (linuxEntries ?c2) l \<noteq> None)" for l
    by (simp add: case_label_fields update_conv')
  let ?pre = "(if nerfDefaultEntry c \<noteq> [] then [nerfDefaultEntry c] else []) @
              (if defaultEntry c \<noteq> [] then [defaultEntry c] else [])"
  have co4: "candidate_order ?c4 = (?pre @ labelOrder c) @ [?a, ?a]"
    and co2: "candidate_order ?c2 = (?pre @ labelOrder c) @ [?a]"
    by (simp_all add: candidate_order_def case_label_fields)
  have cand: "dedup_first (candidate_order ?c4) = dedup_first (candidate_order ?c2)"
    by (simp only: co4 co2 dedup_first_twice)
  have same: "surviving_ids ?c4 = surviving_ids ?c2"
    by (simp only: surviving_ids_def keys cand)
  have "?a \<in> set (candidate_order ?c4)"
    by (simp only: co4) simp
  then have "?a \<in> set (surviving_ids ?c4)"
    using entry by (simp add: surviving_ids_def set_dedup_first)
  moreover have "distinct (surviving_ids ?c4)"
    by (simp add: surviving_ids_def distinct_dedup_first)
  ultimately have once: "count_list (surviving_ids ?c4) ?a = 1"
    by (simp add: count_list_distinct)
  have whole: "ParseConfigFile (Suc n) E ref (wd c) =
      Some (Return [\<lparr>Name = ?a, Cmdline = [], Kernel = Some h2, Initrd = None\<rparr>] None)"
    if new: "c = newParser (wd c)" and inc: "inc = appendFile n E"
      and top: "parseURL E ref (wd c) = Inr u0" "Fetch E u0 = Inr r0" "ReadAll E r0 = Inr config"
      and split: "strings_Split config CHR 0x0A = [l1, l2, l3, l4]"
    for n ref u0 r0 config
  proof -
    let ?w = "wd c"
    let ?img = "\<lparr>Name = ?a, Cmdline = [], Kernel = Some h2, Initrd = None\<rparr>"
    let ?p = "\<lparr>linuxEntries = [(?a, ?img)], labelOrder = [?a, ?a], defaultEntry = [],
               nerfDefaultEntry = [], globalAppend = [], scope = scopeEntry, curEntry = ?a,
               wd = ?w\<rparr>"
    have "?c4 = set_entry (case_label (set_entry (case_label (newParser ?w) ?a) ?a
                  \<lparr>Name = ?a, Cmdline = globalAppend (newParser ?w), Kernel = Some h1,
                    Initrd = None\<rparr>) ?a) ?a
                  \<lparr>Name = ?a, Cmdline = globalAppend (newParser ?w), Kernel = Some h2,
                    Initrd = None\<rparr>"
      using new by simp
    also have "\<dots> = ?p"
      by (simp add: newParser_def case_label_def set_entry_def Let_def)
    finally have c4: "?c4 = ?p" .
    have "backfill E ?p = Return ?p None"
      by (simp add: backfill_def strings_Fields_def)
    with both c4 inc split
    have "parser_append (appendFile n E) E c config = Some (Return ?p None)"
      by (simp add: parser_append_def)
    with top have "appendFile (Suc n) E (newParser ?w) ref = Some (Return ?p None)"
      using new by (simp add: newParser_def)
    then show ?thesis
      by (simp add: ParseConfigFile_def dedupStrings_def)
  qed
  show ?thesis
    using first both entry order same once whole by blast
qed


subsection \<open>The place of a label in the output\<close>

lemma dedup_first_append:
  "dedup_first (xs @ ys) = dedup_first xs @ dedup_first (filter (\<lambda>y. y \<notin> set xs) ys)"
proof (induction xs arbitrary: ys rule: dedup_first.induct)
  case 1
  then show ?case by simp
next
  case (2 x xs)
  have "filter (\<lambda>y. y \<notin> set (filter (\<lambda>y. y \<noteq> x) xs)) (filter (\<lambda>y. y \<noteq> x) ys)
          = filter (\<lambda>y. y \<notin> set (x # xs)) ys"
    by (induction ys) auto
  with 2[of "filter (\<lambda>y. y \<noteq> x) ys"] show ?case by simp
qed

lemma dedup_first_new_label:
  assumes "a \<notin> set xs"
  shows "dedup_first (xs @ a # a # rest) =
     dedup_first xs @ a # dedup_first (filter (\<lambda>y. y \<noteq> a) (filter (\<lambda>y. y \<notin> set xs) rest))"
  using assms by (simp add: dedup_first_append)

lemma grow_steps: "invariant_steps E (grows_from ls) (\<lambda>p. True)"
  unfolding invariant_steps_def
proof (intro allI impI conjI)
  fix c :: parser and a :: string assume I: "grows_from ls c"
  show "grows_from ls (c\<lparr>defaultEntry := a\<rparr>)" "grows_from ls (c\<lparr>nerfDefaultEntry := a\<rparr>)"
    using I by (simp_all add: grows_from_def)
  show "grows_from ls (case_menu c a)"
    using I by (auto simp: grows_from_def case_menu_def Let_def split: option.splits)
  show "grows_from ls (case_label c a)"
    using I by (auto simp: grows_from_def case_label_def Let_def)
  show "ok (grows_from ls) (\<lambda>p. True) (case_kernel E c a)"
    using I by (auto simp: ok_def grows_from_def case_kernel_def split: option.splits sum.splits)
  show "ok (grows_from ls) (\<lambda>p. True) (case_initrd E c a)"
    using I by (auto simp: ok_def grows_from_def case_initrd_def split: option.splits sum.splits)
  show "ok (grows_from ls) (\<lambda>p. True) (case_append c a)"
    using I
    by (auto simp: ok_def grows_from_def case_append_def split: option.splits scope.splits)
  show "ok (grows_from ls) (\<lambda>p. True) (backfill E c)"
    using I backfill_cases[of E c] by (auto simp: ok_def grows_from_def)
qed

lemma lines_loop_grows:
  assumes "lines_loop (appendFile n E) E c ls = Some (Return c' e)"
  shows "\<exists>rest. labelOrder c' = labelOrder c @ rest"
proof -
  have "grows_from (labelOrder c) c"
    by (simp add: grows_from_def)
  then have "ok (grows_from (labelOrder c)) (\<lambda>p. True) (Return c' e)"
    using lines_loop_ok[OF grow_steps[of E "labelOrder c"], of "appendFile n E" c ls
        "Return c' e"]
      appendFile_ok[OF grow_steps[of E "labelOrder c"], of _ n] assms
    by blast
  then show ?thesis
    by (simp add: ok_def grows_from_def)
qed

lemma ParseConfigFile_labels:
  assumes "appendFile n E (newParser w) ref = Some (Return p None)" and "labelOrder p \<noteq> []"
  shows "ParseConfigFile n E ref w =
     Some (Return (map (\<lambda>l. the (map_of (linuxEntries p) l))
                     (filter (\<lambda>l. map_of (linuxEntries p) l \<noteq> None)
                        (dedup_first
                           ((if nerfDefaultEntry p \<noteq> [] then [nerfDefaultEntry p] else []) @
                            (if defaultEntry p \<noteq> [] then [defaultEntry p] else []) @
                            labelOrder p)))) None)"
  using assms
  by (simp add: ParseConfigFile_def Let_def collect_images_spec dedupStrings_spec)

lemma redeclared_position:
  assumes "strings_Fields l1 = k1 # A" and "A \<noteq> []" and "strings_ToLower k1 = ''label''"
    and "strings_Fields l2 = k2 # K1" and "K1 \<noteq> []" and "strings_ToLower k2 = ''kernel''"
    and "strings_Fields l3 = k3 # A" and "strings_ToLower k3 = ''label''"
    and "strings_Fields l4 = k4 # K2" and "K2 \<noteq> []" and "strings_ToLower k4 = ''kernel''"
    and "getFile E (wd c) (strings_Join K1 '' '') = Inr h1"
    and "getFile E (wd c) (strings_Join K2 '' '') = Inr h2"
    and inc: "inc = appendFile n E"
    and top: "parseURL E ref w = Inr u0" "Fetch E u0 = Inr r0" "ReadAll E r0 = Inr config"
    and split: "strings_Split config CHR 0x0A = before @ [l1, l2, l3, l4] @ after"
    and pre: "lines_loop inc E (newParser w) before = Some (Return c None)"
    and four: "lines_loop inc E c [l1, l2, l3, l4] = Some (Return c4 None)"
    and post: "lines_loop inc E c4 after = Some (Return c5 None)"
    and alone: "map_of (linuxEntries c5) (strings_Join A '' '')
                  = map_of (linuxEntries c4) (strings_Join A '' '')"
    and fill: "backfill E c5 = Return p None"
    and first: "strings_Join A '' '' \<notin> set (labelOrder c)"
      "strings_Join A '' '' \<noteq> defaultEntry p" "strings_Join A '' '' \<noteq> nerfDefaultEntry p"
  shows "\<exists>img tail_ids.
     ParseConfigFile (Suc n) E ref w =
       Some (Return (map (\<lambda>l. the (map_of (linuxEntries p) l)) (ids_before p (labelOrder c)) @
                     img # map (\<lambda>l. the (map_of (linuxEntries p) l)) tail_ids) None) \<and>
     Name img = strings_Join A '' '' \<and> Kernel img = Some h2 \<and> Cmdline img = globalAppend c \<and>
     strings_Join A '' '' \<notin> set (ids_before p (labelOrder c)) \<and>
     strings_Join A '' '' \<notin> set tail_ids"
proof -
  let ?a = "strings_Join A '' ''"
  let ?F2 = "\<lparr>Name = ?a, Cmdline = globalAppend c, Kernel = Some h2, Initrd = None\<rparr>"
  let ?L = "\<lambda>l. the (map_of (linuxEntries p) l)"
  let ?has = "\<lambda>l. map_of (linuxEntries p) l \<noteq> None"
  let ?D = "(if nerfDefaultEntry p \<noteq> [] then [nerfDefaultEntry p] else []) @
            (if defaultEntry p \<noteq> [] then [defaultEntry p] else [])"
  from redeclared_states[OF assms(1-13), of inc] four
  have e4: "map_of (linuxEntries c4) ?a = Some ?F2"
    and o4: "labelOrder c4 = labelOrder c @ [?a, ?a]"
    by auto
  from lines_loop_grows[of n E c4 after c5 None] post inc
  obtain rest where o5: "labelOrder c5 = labelOrder c4 @ rest"
    by auto
  from backfill_cases[of E c5] fill
  obtain es where p: "p = c5\<lparr>linuxEntries := es\<rparr>"
    by auto
  from backfill_lookup[OF fill, of ?a ?F2] alone e4
  obtain img where img: "map_of (linuxEntries p) ?a = Some img"
    and fields: "Name img = ?a" "Kernel img = Some h2" "Cmdline img = globalAppend c"
    by auto
  have order: "labelOrder p = labelOrder c @ ?a # ?a # rest"
    using p o5 o4 by simp
  have "lines_loop inc E (newParser w) (before @ [l1, l2, l3, l4] @ after)
          = lines_loop inc E c4 after"
    using lines_loop_append[OF pre, of "[l1, l2, l3, l4] @ after"]
      lines_loop_append[OF four, of after]
    by simp
  then have "parser_append inc E (newParser w) config = Some (Return p None)"
    using post fill by (simp add: parser_append_def split)
  then have run: "appendFile (Suc n) E (newParser w) ref = Some (Return p None)"
    using top inc by (simp add: newParser_def)
  have ne: "labelOrder p \<noteq> []"
    using order by simp
  let ?xs = "?D @ labelOrder c"
  have new: "?a \<notin> set ?xs"
    using first by auto
  let ?tail = "filter ?has (dedup_first (filter (\<lambda>y. y \<noteq> ?a)
                 (filter (\<lambda>y. y \<notin> set ?xs) rest)))"
  have cand: "?D @ labelOrder p = ?xs @ ?a # ?a # rest"
    using order by simp
  have ids: "filter ?has (dedup_first (?D @ labelOrder p))
               = ids_before p (labelOrder c) @ ?a # ?tail"
    unfolding cand dedup_first_new_label[OF new]
    using img by (simp add: ids_before_def)
  have out: "ParseConfigFile (Suc n) E ref w =
       Some (Return (map ?L (ids_before p (labelOrder c)) @ img # map ?L ?tail) None)"
    using ParseConfigFile_labels[OF run ne] ids img by simp
  have "?a \<notin> set (ids_before p (labelOrder c))"
    using new by (simp add: ids_before_def set_dedup_first)
  moreover have "?a \<notin> set ?tail"
    by (simp add: set_dedup_first)
  ultimately show ?thesis
    using out fields by blast
qed

subsection \<open>The working directory\<close>

lemma wd_steps: "invariant_steps E (\<lambda>c. wd c = w) (\<lambda>p. True)"
  unfolding invariant_steps_def
proof (intro allI impI conjI)
  fix c :: parser and a :: string assume I: "wd c = w"
  show "wd (c\<lparr>defaultEntry := a\<rparr>) = w" "wd (c\<lparr>nerfDefaultEntry := a\<rparr>) = w"
    using I by simp_all
  show "wd (case_menu c a) = w"
    using I by (auto simp: case_menu_def Let_def split: option.splits)
  show "wd (case_label c a) = w"
    using I by (simp add: case_label_def Let_def)
  show "ok (\<lambda>c. wd c = w) (\<lambda>p. True) (case_kernel E c a)"
    using I by (auto simp: ok_def case_kernel_def split: option.splits sum.splits)
  show "ok (\<lambda>c. wd c = w) (\<lambda>p. True) (case_initrd E c a)"
    using I by (auto simp: ok_def case_initrd_def split: option.splits sum.splits)
  show "ok (\<lambda>c. wd c = w) (\<lambda>p. True) (case_append c a)"
    using I by (auto simp: ok_def case_append_def split: option.splits scope.splits)
  show "ok (\<lambda>c. wd c = w) (\<lambda>p. True) (backfill E c)"
    using I backfill_cases[of E c] by (auto simp: ok_def)
qed

subsection \<open>Only the working directory of the parser is used\<close>

lemma getFile_same:
  assumes "same_at w E E'"
  shows "getFile E' w ref = getFile E w ref"
  using assms by (simp add: same_at_def getFile_def split: sum.splits)

lemma initrd_scan_same:
  assumes "same_at w E E'"
  shows "initrd_scan E' w l opts = initrd_scan E w l opts"
  by (induction opts arbitrary: l)
    (simp_all add: getFile_same[OF assms] split: list.splits sum.splits)

lemma backfill_entries_same:
  assumes "same_at w E E'"
  shows "backfill_entries E' w es = backfill_entries E w es"
  by (induction es)
    (simp_all add: initrd_scan_same[OF assms] split: outcome.splits option.splits)

lemma backfill_same: "same_at (wd c) E E' \<Longrightarrow> backfill E' c = backfill E c"
  by (simp add: backfill_def backfill_entries_same)

lemma case_kernel_same: "same_at (wd c) E E' \<Longrightarrow> case_kernel E' c a = case_kernel E c a"
  by (simp add: case_kernel_def getFile_same split: option.splits)

lemma case_initrd_same: "same_at (wd c) E E' \<Longrightarrow> case_initrd E' c a = case_initrd E c a"
  by (simp add: case_initrd_def getFile_same split: option.splits)

lemma case_include_same:
  "inc' c a = inc c a \<Longrightarrow> case_include inc' c a = case_include inc c a"
  by (simp add: case_include_def)

lemma process_line_same:
  assumes "same_at (wd c) E E'" and "\<forall>a. inc' c a = inc c a"
  shows "process_line inc' E' c line = process_line inc E c line"
  using assms(2)
  by (simp add: process_line_def Let_def case_kernel_same[OF assms(1)]
      case_initrd_same[OF assms(1)] case_include_def)

lemma lines_loop_same:
  assumes "same_at w E E'"
    and "\<forall>c0 a. wd c0 = w \<longrightarrow> inc' c0 a = inc c0 a"
    and "\<forall>c0 a r. wd c0 = w \<longrightarrow> inc c0 a = Some r \<longrightarrow> ok (\<lambda>x. wd x = w) (\<lambda>p. True) r"
  shows "wd c = w \<Longrightarrow> lines_loop inc' E' c ls = lines_loop inc E c ls"
proof (induction ls arbitrary: c)
  case Nil
  then show ?case by simp
next
  case (Cons l ls)
  have step: "process_line inc' E' c l = process_line inc E c l"
    using assms(1,2) Cons.prems by (intro process_line_same) simp_all
  show ?case
  proof (cases "process_line inc E c l")
    case None
    with step show ?thesis by simp
  next
    case (Some r)
    have "ok (\<lambda>x. wd x = w) (\<lambda>p. True) r"
    proof (rule process_line_ok[OF wd_steps[of E w] Cons.prems _ Some])
      show "ok (\<lambda>x. wd x = w) (\<lambda>p. True) r0" if "wd c0 = w" "inc c0 a = Some r0" for c0 a r0
        using assms(3) that by blast
    qed
    then have "r = Return c' None \<Longrightarrow> wd c' = w" for c'
      by (simp add: ok_def)
    then show ?thesis
      using step Some Cons.IH by (auto split: outcome.splits option.splits)
  qed
qed

lemma parser_append_same:
  assumes "same_at w E E'"
    and "\<forall>c0 a. wd c0 = w \<longrightarrow> inc' c0 a = inc c0 a"
    and "\<forall>c0 a r. wd c0 = w \<longrightarrow> inc c0 a = Some r \<longrightarrow> ok (\<lambda>x. wd x = w) (\<lambda>p. True) r"
    and "wd c = w"
  shows "parser_append inc' E' c config = parser_append inc E c config"
proof -
  let ?ls = "strings_Split config CHR 0x0A"
  have loop: "lines_loop inc' E' c ?ls = lines_loop inc E c ?ls"
    by (rule lines_loop_same[OF assms(1-3) assms(4)])
  have "backfill E' c' = backfill E c'" if "lines_loop inc E c ?ls = Some (Return c' None)" for c'
  proof -
    have "ok (\<lambda>x. wd x = w) (\<lambda>p. True) (Return c' None)"
    proof (rule lines_loop_ok[OF wd_steps[of E w] _ assms(4) that])
      show "ok (\<lambda>x. wd x = w) (\<lambda>p. True) r0" if "wd c0 = w" "inc c0 a = Some r0" for c0 a r0
        using assms(3) that by blast
    qed
    then have "wd c' = w" by (simp add: ok_def)
    with assms(1) show ?thesis by (simp add: backfill_same)
  qed
  then show ?thesis
    using loop by (auto simp: parser_append_def split: option.splits outcome.splits)
qed

lemma appendFile_same:
  assumes "same_at w E E'"
  shows "wd c = w \<Longrightarrow> appendFile n E' c ref = appendFile n E c ref"
proof (induction n arbitrary: c ref)
  case 0
  then show ?case by simp
next
  case (Suc n)
  have inc: "\<forall>c0 a. wd c0 = w \<longrightarrow> appendFile n E' c0 a = appendFile n E c0 a"
    using Suc.IH by blast
  have keep: "\<forall>c0 a r. wd c0 = w \<longrightarrow> appendFile n E c0 a = Some r
                \<longrightarrow> ok (\<lambda>x. wd x = w) (\<lambda>p. True) r"
    using appendFile_ok[OF wd_steps[of E w]] by blast
  have url: "parseURL E' ref (wd c) = parseURL E ref (wd c)"
    and fetch: "Fetch E' = Fetch E" "ReadAll E' = ReadAll E"
    using assms Suc.prems by (simp_all add: same_at_def)
  have "parser_append (appendFile n E') E' c config = parser_append (appendFile n E) E c config"
    for config
    by (rule parser_append_same[OF assms inc keep Suc.prems])
  then show ?case
    by (simp add: url fetch split: sum.splits)
qed

text \<open>
  C1, as the code has it. The parser has one working directory, the one
  \<^verbatim>\<open>newParser\<close> was given, and every reference, in the first file or in a file
  included at any depth, is resolved against it. No line of any file and no nested
  \<^verbatim>\<open>appendFile\<close> changes the field. The outcome of \<^verbatim>\<open>appendFile\<close> is the same
  in any two worlds that fetch alike and resolve alike against that one directory,
  however they resolve against any other, so no reference is resolved against the
  directory of an included file. The text of an included file is processed by the
  same parser, with the working directory it had at the \<^verbatim>\<open>include\<close> line; and a
  \<^verbatim>\<open>kernel\<close> line, wherever it stands, takes the handle that \<open>getFile\<close> returns
  for its argument against the working directory of the parser.
\<close>

theorem working_directory_fixed:
  "wd (newParser w) = w \<and>
   (\<forall>c ref c' e. appendFile n E c ref = Some (Return c' e) \<longrightarrow> wd c' = wd c) \<and>
   (\<forall>c ls c' e. lines_loop (appendFile n E) E c ls = Some (Return c' e) \<longrightarrow> wd c' = wd c) \<and>
   (\<forall>c ref E'. same_at (wd c) E E' \<longrightarrow> appendFile n E' c ref = appendFile n E c ref) \<and>
   (\<forall>c ref u r config.
      parseURL E ref (wd c) = Inr u \<and> Fetch E u = Inr r \<and> ReadAll E r = Inr config \<longrightarrow>
      appendFile (Suc n) E c ref = parser_append (appendFile n E) E c config) \<and>
   (\<forall>inc c line k args e0.
      strings_Fields line = k # args \<and> args \<noteq> [] \<and> strings_ToLower k = ''kernel'' \<and>
      map_of (linuxEntries c) (curEntry c) = Some e0 \<longrightarrow>
      process_line inc E c line =
        Some (case getFile E (wd c) (strings_Join args '' '') of
                Inl err \<Rightarrow> Return c (Some err)
              | Inr h \<Rightarrow> Return (set_entry c (curEntry c) (e0\<lparr>Kernel := Some h\<rparr>)) None))"
proof -
  have init: "wd (newParser w) = w"
    by (simp add: newParser_def)
  have a: "\<forall>c ref c' e. appendFile n E c ref = Some (Return c' e) \<longrightarrow> wd c' = wd c"
  proof (intro allI impI)
    fix c ref c' e assume "appendFile n E c ref = Some (Return c' e)"
    then show "wd c' = wd c"
      using appendFile_ok[OF wd_steps[of E "wd c"], of c n ref "Return c' e"]
      by (simp add: ok_def)
  qed
  have b: "\<forall>c ls c' e. lines_loop (appendFile n E) E c ls = Some (Return c' e) \<longrightarrow> wd c' = wd c"
  proof (intro allI impI)
    fix c ls c' e assume "lines_loop (appendFile n E) E c ls = Some (Return c' e)"
    then show "wd c' = wd c"
      using lines_loop_ok[OF wd_steps[of E "wd c"], of "appendFile n E" c ls "Return c' e"]
        appendFile_ok[OF wd_steps[of E "wd c"], of _ n]
      by (simp add: ok_def)
  qed
  have s: "\<forall>c ref E'. same_at (wd c) E E' \<longrightarrow> appendFile n E' c ref = appendFile n E c ref"
  proof (intro allI impI)
    fix c :: parser and ref E' assume "same_at (wd c) E E'"
    then show "appendFile n E' c ref = appendFile n E c ref"
      by (rule appendFile_same) simp
  qed
  have f: "\<forall>c ref u r config.
      parseURL E ref (wd c) = Inr u \<and> Fetch E u = Inr r \<and> ReadAll E r = Inr config \<longrightarrow>
      appendFile (Suc n) E c ref = parser_append (appendFile n E) E c config"
    by simp
  have k: "\<forall>inc c line k args e0.
      strings_Fields line = k # args \<and> args \<noteq> [] \<and> strings_ToLower k = ''kernel'' \<and>
      map_of (linuxEntries c) (curEntry c) = Some e0 \<longrightarrow>
      process_line inc E c line =
        Some (case getFile E (wd c) (strings_Join args '' '') of
                Inl err \<Rightarrow> Return c (Some err)
              | Inr h \<Rightarrow> Return (set_entry c (curEntry c) (e0\<lparr>Kernel := Some h\<rparr>)) None)"
  proof (intro allI impI)
    fix inc and c :: parser and line k args e0
    assume h: "strings_Fields line = k # args \<and> args \<noteq> [] \<and> strings_ToLower k = ''kernel'' \<and>
      map_of (linuxEntries c) (curEntry c) = Some e0"
    then have 1: "strings_Fields line = k # args" and 2: "args \<noteq> []"
      and 3: "strings_ToLower k = ''kernel''"
      and 4: "map_of (linuxEntries c) (curEntry c) = Some e0"
      by simp_all
    show "process_line inc E c line =
        Some (case getFile E (wd c) (strings_Join args '' '') of
                Inl err \<Rightarrow> Return c (Some err)
              | Inr h \<Rightarrow> Return (set_entry c (curEntry c) (e0\<lparr>Kernel := Some h\<rparr>)) None)"
      by (simp add: process_line_kernel[OF 1 2 3] case_kernel_def 4)
  qed
  show ?thesis
    by (intro conjI) (rule init a b s f k)+
qed

theorem working_directory_fixed_witness:
  "same_at boot_dir (disk nested_files []) boot_only_disk \<and>
   getFile boot_only_disk
     (Some (own_directory boot_only_disk (file_url ''/boot/sub/inner.cfg''))) ''vmlinuz''
     = Inr (ReaderAt (file_url ''/nowhere'')) \<and>
   appendFile 2 boot_only_disk (newParser boot_dir) ''main.cfg''
     = Some (Return
         \<lparr>linuxEntries = [(''A'', \<lparr>Name = ''A'', Cmdline = [],
             Kernel = Some (ReaderAt (file_url ''/boot/vmlinuz'')), Initrd = None\<rparr>)],
          labelOrder = [''A''], defaultEntry = [], nerfDefaultEntry = [], globalAppend = [],
          scope = scopeEntry, curEntry = ''A'', wd = boot_dir\<rparr> None) \<and>
   appendFile 2 (disk nested_files []) (newParser boot_dir) ''main.cfg''
     = Some (Return
         \<lparr>linuxEntries = [(''A'', \<lparr>Name = ''A'', Cmdline = [],
             Kernel = Some (ReaderAt (file_url ''/boot/vmlinuz'')), Initrd = None\<rparr>)],
          labelOrder = [''A''], defaultEntry = [], nerfDefaultEntry = [], globalAppend = [],
          scope = scopeEntry, curEntry = ''A'', wd = boot_dir\<rparr> None) \<and>
   lines_loop (appendFile 1 (disk nested_files [])) (disk nested_files []) quiet_parser
     [''kernel vmlinuz''] = Some (Return
         \<lparr>linuxEntries = [(''A'', \<lparr>Name = ''A'', Cmdline = ''quiet'',
             Kernel = Some (ReaderAt (file_url ''/boot/vmlinuz'')), Initrd = None\<rparr>)],
          labelOrder = [''A''], defaultEntry = [], nerfDefaultEntry = [], globalAppend = [],
          scope = scopeEntry, curEntry = ''A'', wd = boot_dir\<rparr> None) \<and>
   process_line (appendFile 1 (disk nested_files [])) (disk nested_files []) quiet_parser
     ''kernel vmlinuz'' = Some (Return
         (set_entry quiet_parser ''A''
            (quiet_entry\<lparr>Kernel := Some (ReaderAt (file_url ''/boot/vmlinuz''))\<rparr>)) None) \<and>
   wd (newParser boot_dir) = boot_dir \<and> wd quiet_parser = boot_dir"
proof -
  let ?E = "disk nested_files []"
  let ?p = "\<lparr>linuxEntries = [(''A'', \<lparr>Name = ''A'', Cmdline = [],
             Kernel = Some (ReaderAt (file_url ''/boot/vmlinuz'')), Initrd = None\<rparr>)],
          labelOrder = [''A''], defaultEntry = [], nerfDefaultEntry = [], globalAppend = [],
          scope = scopeEntry, curEntry = ''A'', wd = boot_dir\<rparr>"
  let ?q = "\<lparr>linuxEntries = [(''A'', \<lparr>Name = ''A'', Cmdline = ''quiet'',
             Kernel = Some (ReaderAt (file_url ''/boot/vmlinuz'')), Initrd = None\<rparr>)],
          labelOrder = [''A''], defaultEntry = [], nerfDefaultEntry = [], globalAppend = [],
          scope = scopeEntry, curEntry = ''A'', wd = boot_dir\<rparr>"
  note at1 = working_directory_fixed[of boot_dir 1 ?E]
  note at2 = working_directory_fixed[of boot_dir 2 ?E]
  note keep_file = at2[THEN conjunct2, THEN conjunct1, rule_format]
  note keep_lines = at1[THEN conjunct2, THEN conjunct2, THEN conjunct1, rule_format]
  note alike = at2[THEN conjunct2, THEN conjunct2, THEN conjunct2, THEN conjunct1, rule_format]
  note kernel = at1[THEN conjunct2, THEN conjunct2, THEN conjunct2, THEN conjunct2,
      THEN conjunct2, rule_format]
  have w: "wd (newParser boot_dir) = boot_dir" and wq: "wd quiet_parser = boot_dir"
    by (simp_all add: newParser_def quiet_parser_def)
  have same: "same_at boot_dir ?E boot_only_disk"
    by (simp add: same_at_def boot_only_disk_def disk_def parseURL_def boot_dir_def
        file_url_def)
  have own: "getFile boot_only_disk
     (Some (own_directory boot_only_disk (file_url ''/boot/sub/inner.cfg''))) ''vmlinuz''
     = Inr (ReaderAt (file_url ''/nowhere''))"
    by code_simp
  have f: "appendFile 2 ?E (newParser boot_dir) ''main.cfg'' = Some (Return ?p None)"
    by code_simp
  have l: "lines_loop (appendFile 1 ?E) ?E quiet_parser [''kernel vmlinuz'']
             = Some (Return ?q None)"
    by code_simp
  have kl: "strings_Fields ''kernel vmlinuz'' = ''kernel'' # [''vmlinuz'']"
    and kk: "strings_ToLower ''kernel'' = ''kernel''"
    and ke: "map_of (linuxEntries quiet_parser) (curEntry quiet_parser) = Some quiet_entry"
    and kg: "getFile ?E (wd quiet_parser) (strings_Join [''vmlinuz''] '' '')
               = Inr (ReaderAt (file_url ''/boot/vmlinuz''))"
    by code_simp+
  have kg2: "getFile ?E boot_dir ''vmlinuz'' = Inr (ReaderAt (file_url ''/boot/vmlinuz''))"
    by code_simp
  have ce: "curEntry quiet_parser = ''A''"
    by (simp add: quiet_parser_def)
  have "appendFile 2 boot_only_disk (newParser boot_dir) ''main.cfg''
          = appendFile 2 ?E (newParser boot_dir) ''main.cfg''"
    using alike[of "newParser boot_dir" boot_only_disk "''main.cfg''"] same w by simp
  then have f': "appendFile 2 boot_only_disk (newParser boot_dir) ''main.cfg''
                   = Some (Return ?p None)"
    using f by simp
  have "wd ?p = wd (newParser boot_dir)"
    using f by (rule keep_file)
  moreover have "wd ?q = wd quiet_parser"
    using l by (rule keep_lines)
  moreover have "process_line (appendFile 1 ?E) ?E quiet_parser ''kernel vmlinuz'' =
      Some (case getFile ?E (wd quiet_parser) (strings_Join [''vmlinuz''] '' '') of
              Inl err \<Rightarrow> Return quiet_parser (Some err)
            | Inr h \<Rightarrow> Return (set_entry quiet_parser (curEntry quiet_parser)
                                 (quiet_entry\<lparr>Kernel := Some h\<rparr>)) None)"
    using kernel[of "''kernel vmlinuz''" "''kernel''" "[''vmlinuz'']" quiet_parser quiet_entry
        "appendFile 1 ?E"] kl kk ke
    by simp
  then have "process_line (appendFile 1 ?E) ?E quiet_parser ''kernel vmlinuz'' =
      Some (Return (set_entry quiet_parser ''A''
            (quiet_entry\<lparr>Kernel := Some (ReaderAt (file_url ''/boot/vmlinuz''))\<rparr>)) None)"
    by (simp add: kg2 ce wq)
  ultimately show ?thesis
    using same own f f' l w wq by simp
qed

text \<open>
  C1, as stated, fails. \<^verbatim>\<open>/boot/main.cfg\<close> includes \<^verbatim>\<open>sub/inner.cfg\<close>, which
  names the kernel \<^verbatim>\<open>vmlinuz\<close>. Against the directory of the included file the
  kernel would be \<^verbatim>\<open>/boot/sub/vmlinuz\<close>; the parser resolves it against the
  working directory of the top-level call and gets \<^verbatim>\<open>/boot/vmlinuz\<close>.
\<close>

theorem nested_reference_counterexample:
  "parseURL (disk nested_files []) ''sub/inner.cfg'' boot_dir
     = Inr (file_url ''/boot/sub/inner.cfg'') \<and>
   getFile (disk nested_files [])
     (Some (own_directory (disk nested_files []) (file_url ''/boot/sub/inner.cfg''))) ''vmlinuz''
     = Inr (ReaderAt (file_url ''/boot/sub/vmlinuz'')) \<and>
   ParseConfigFile 2 (disk nested_files []) ''main.cfg'' boot_dir
     = Some (Return [\<lparr>Name = ''A'', Cmdline = [],
         Kernel = Some (ReaderAt (file_url ''/boot/vmlinuz'')), Initrd = None\<rparr>] None) \<and>
   ReaderAt (file_url ''/boot/vmlinuz'') \<noteq> ReaderAt (file_url ''/boot/sub/vmlinuz'')"
  by code_simp

subsection \<open>A label declared twice, in a longer file\<close>

text \<open>
  C7. The lines \<^verbatim>\<open>label A\<close>, \<^verbatim>\<open>kernel K1\<close>, \<^verbatim>\<open>label A\<close>, \<^verbatim>\<open>kernel K2\<close>, both
  kernels fetched: the entry \<open>A\<close> is a fresh record with the handle of \<open>K2\<close>; the
  label is in \<open>labelOrder\<close> twice, and the identifiers of the output are those
  after the first two lines, with \<open>A\<close> among them once, so the second declaration
  moves nothing. When these four lines are the whole of the first file, the output
  is that one entry. When they stand in the first file between other lines, the
  first of them being the first declaration of \<open>A\<close>, no default naming \<open>A\<close> and
  the later lines leaving the entry alone, the output of \<^verbatim>\<open>ParseConfigFile\<close>
  has the entry of \<open>A\<close>, with the handle of \<open>K2\<close>, exactly once: after the entries
  of the defaults and of the labels declared before the first \<^verbatim>\<open>label A\<close>, and
  before the entries of the labels declared later.
\<close>

theorem redeclared_label:
  assumes "strings_Fields l1 = k1 # A" and "A \<noteq> []" and "strings_ToLower k1 = ''label''"
    and "strings_Fields l2 = k2 # K1" and "K1 \<noteq> []" and "strings_ToLower k2 = ''kernel''"
    and "strings_Fields l3 = k3 # A" and "strings_ToLower k3 = ''label''"
    and "strings_Fields l4 = k4 # K2" and "K2 \<noteq> []" and "strings_ToLower k4 = ''kernel''"
    and "getFile E (wd c) (strings_Join K1 '' '') = Inr h1"
    and "getFile E (wd c) (strings_Join K2 '' '') = Inr h2"
  shows
    "(\<exists>c2 c4.
       lines_loop inc E c [l1, l2] = Some (Return c2 None) \<and>
       lines_loop inc E c [l1, l2, l3, l4] = Some (Return c4 None) \<and>
       map_of (linuxEntries c4) (strings_Join A '' '') =
         Some \<lparr>Name = strings_Join A '' '', Cmdline = globalAppend c, Kernel = Some h2,
               Initrd = None\<rparr> \<and>
       labelOrder c4 = labelOrder c @ [strings_Join A '' '', strings_Join A '' ''] \<and>
       surviving_ids c4 = surviving_ids c2 \<and>
       count_list (surviving_ids c4) (strings_Join A '' '') = 1 \<and>
       (\<forall>n ref u0 r0 config.
          c = newParser (wd c) \<and> inc = appendFile n E \<and>
          parseURL E ref (wd c) = Inr u0 \<and> Fetch E u0 = Inr r0 \<and>
          ReadAll E r0 = Inr config \<and> strings_Split config CHR 0x0A = [l1, l2, l3, l4] \<longrightarrow>
          ParseConfigFile (Suc n) E ref (wd c) =
            Some (Return [\<lparr>Name = strings_Join A '' '', Cmdline = [], Kernel = Some h2,
                           Initrd = None\<rparr>] None))) \<and>
     (\<forall>n ref w u0 r0 config before after c4 c5 p.
        inc = appendFile n E \<and>
        parseURL E ref w = Inr u0 \<and> Fetch E u0 = Inr r0 \<and> ReadAll E r0 = Inr config \<and>
        strings_Split config CHR 0x0A = before @ [l1, l2, l3, l4] @ after \<and>
        lines_loop inc E (newParser w) before = Some (Return c None) \<and>
        lines_loop inc E c [l1, l2, l3, l4] = Some (Return c4 None) \<and>
        lines_loop inc E c4 after = Some (Return c5 None) \<and>
        map_of (linuxEntries c5) (strings_Join A '' '')
          = map_of (linuxEntries c4) (strings_Join A '' '') \<and>
        backfill E c5 = Return p None \<and>
        strings_Join A '' '' \<notin> set (labelOrder c) \<and>
        strings_Join A '' '' \<noteq> defaultEntry p \<and>
        strings_Join A '' '' \<noteq> nerfDefaultEntry p \<longrightarrow>
        (\<exists>img tail_ids.
           ParseConfigFile (Suc n) E ref w =
             Some (Return
               (map (\<lambda>l. the (map_of (linuxEntries p) l)) (ids_before p (labelOrder c)) @
                img # map (\<lambda>l. the (map_of (linuxEntries p) l)) tail_ids) None) \<and>
           Name img = strings_Join A '' '' \<and> Kernel img = Some h2 \<and>
           Cmdline img = globalAppend c \<and>
           strings_Join A '' '' \<notin> set (ids_before p (labelOrder c)) \<and>
           strings_Join A '' '' \<notin> set tail_ids))"
proof (rule conjI)
  show "\<exists>c2 c4.
       lines_loop inc E c [l1, l2] = Some (Return c2 None) \<and>
       lines_loop inc E c [l1, l2, l3, l4] = Some (Return c4 None) \<and>
       map_of (linuxEntries c4) (strings_Join A '' '') =
         Some \<lparr>Name = strings_Join A '' '', Cmdline = globalAppend c, Kernel = Some h2,
               Initrd = None\<rparr> \<and>
       labelOrder c4 = labelOrder c @ [strings_Join A '' '', strings_Join A '' ''] \<and>
       surviving_ids c4 = surviving_ids c2 \<and>
       count_list (surviving_ids c4) (strings_Join A '' '') = 1 \<and>
       (\<forall>n ref u0 r0 config.
          c = newParser (wd c) \<and> inc = appendFile n E \<and>
          parseURL E ref (wd c) = Inr u0 \<and> Fetch E u0 = Inr r0 \<and>
          ReadAll E r0 = Inr config \<and> strings_Split config CHR 0x0A = [l1, l2, l3, l4] \<longrightarrow>
          ParseConfigFile (Suc n) E ref (wd c) =
            Some (Return [\<lparr>Name = strings_Join A '' '', Cmdline = [], Kernel = Some h2,
                           Initrd = None\<rparr>] None))"
    by (rule redeclared_states[OF assms])
next
  show "\<forall>n ref w u0 r0 config before after c4 c5 p.
        inc = appendFile n E \<and>
        parseURL E ref w = Inr u0 \<and> Fetch E u0 = Inr r0 \<and> ReadAll E r0 = Inr config \<and>
        strings_Split config CHR 0x0A = before @ [l1, l2, l3, l4] @ after \<and>
        lines_loop inc E (newParser w) before = Some (Return c None) \<and>
        lines_loop inc E c [l1, l2, l3, l4] = Some (Return c4 None) \<and>
        lines_loop inc E c4 after = Some (Return c5 None) \<and>
        map_of (linuxEntries c5) (strings_Join A '' '')
          = map_of (linuxEntries c4) (strings_Join A '' '') \<and>
        backfill E c5 = Return p None \<and>
        strings_Join A '' '' \<notin> set (labelOrder c) \<and>
        strings_Join A '' '' \<noteq> defaultEntry p \<and>
        strings_Join A '' '' \<noteq> nerfDefaultEntry p \<longrightarrow>
        (\<exists>img tail_ids.
           ParseConfigFile (Suc n) E ref w =
             Some (Return
               (map (\<lambda>l. the (map_of (linuxEntries p) l)) (ids_before p (labelOrder c)) @
                img # map (\<lambda>l. the (map_of (linuxEntries p) l)) tail_ids) None) \<and>
           Name img = strings_Join A '' '' \<and> Kernel img = Some h2 \<and>
           Cmdline img = globalAppend c \<and>
           strings_Join A '' '' \<notin> set (ids_before p (labelOrder c)) \<and>
           strings_Join A '' '' \<notin> set tail_ids)"
  proof (intro allI impI, elim conjE)
    fix n ref w u0 r0 config before after c4 c5 p
    assume h: "inc = appendFile n E"
      "parseURL E ref w = Inr u0" "Fetch E u0 = Inr r0" "ReadAll E r0 = Inr config"
      "strings_Split config CHR 0x0A = before @ [l1, l2, l3, l4] @ after"
      "lines_loop inc E (newParser w) before = Some (Return c None)"
      "lines_loop inc E c [l1, l2, l3, l4] = Some (Return c4 None)"
      "lines_loop inc E c4 after = Some (Return c5 None)"
      "map_of (linuxEntries c5) (strings_Join A '' '')
          = map_of (linuxEntries c4) (strings_Join A '' '')"
      "backfill E c5 = Return p None"
      "strings_Join A '' '' \<notin> set (labelOrder c)"
      "strings_Join A '' '' \<noteq> defaultEntry p"
      "strings_Join A '' '' \<noteq> nerfDefaultEntry p"
    show "\<exists>img tail_ids.
           ParseConfigFile (Suc n) E ref w =
             Some (Return
               (map (\<lambda>l. the (map_of (linuxEntries p) l)) (ids_before p (labelOrder c)) @
                img # map (\<lambda>l. the (map_of (linuxEntries p) l)) tail_ids) None) \<and>
           Name img = strings_Join A '' '' \<and> Kernel img = Some h2 \<and>
           Cmdline img = globalAppend c \<and>
           strings_Join A '' '' \<notin> set (ids_before p (labelOrder c)) \<and>
           strings_Join A '' '' \<notin> set tail_ids"
      by (rule redeclared_position[OF assms h])
  qed
qed

theorem redeclared_label_witness:
  "getFile (disk redeclared_files []) boot_dir ''k1'' = Inr (ReaderAt (file_url ''/boot/k1'')) \<and>
   getFile (disk redeclared_files []) boot_dir ''k2'' = Inr (ReaderAt (file_url ''/boot/k2'')) \<and>
   strings_Split (text_of [''label A'', ''kernel k1'', ''label A'', ''kernel k2'']) CHR 0x0A
     = [''label A'', ''kernel k1'', ''label A'', ''kernel k2''] \<and>
   ParseConfigFile 1 (disk redeclared_files []) ''syslinux.cfg'' boot_dir
     = Some (Return [\<lparr>Name = ''A'', Cmdline = [],
         Kernel = Some (ReaderAt (file_url ''/boot/k2'')), Initrd = None\<rparr>] None) \<and>
   lines_loop (appendFile 0 (disk position_files [])) (disk position_files [])
     (newParser boot_dir) [''label B''] = Some (Return position_before None) \<and>
   lines_loop (appendFile 0 (disk position_files [])) (disk position_files [])
     position_before [''label A'', ''kernel k1'', ''label A'', ''kernel k2'']
     = Some (Return position_four None) \<and>
   lines_loop (appendFile 0 (disk position_files [])) (disk position_files [])
     position_four [''label C''] = Some (Return position_final None) \<and>
   backfill (disk position_files []) position_final = Return position_final None \<and>
   ids_before position_final (labelOrder position_before) = [''B''] \<and>
   (\<exists>img tail_ids.
      ParseConfigFile 1 (disk position_files []) ''syslinux.cfg'' boot_dir =
        Some (Return
          (map (\<lambda>l. the (map_of (linuxEntries position_final) l))
             (ids_before position_final (labelOrder position_before)) @
           img # map (\<lambda>l. the (map_of (linuxEntries position_final) l)) tail_ids) None) \<and>
      Name img = ''A'' \<and> Kernel img = Some (ReaderAt (file_url ''/boot/k2'')) \<and>
      ''A'' \<notin> set tail_ids) \<and>
   ParseConfigFile 1 (disk position_files []) ''syslinux.cfg'' boot_dir =
     Some (Return [plain_entry ''B'' None,
                   plain_entry ''A'' (Some (ReaderAt (file_url ''/boot/k2''))),
                   plain_entry ''C'' None] None)"
proof -
  let ?E = "disk redeclared_files []"
  let ?P = "disk position_files []"
  let ?c = "newParser boot_dir"
  have w: "wd ?c = boot_dir"
    by (simp add: newParser_def)
  have la: "strings_Fields ''label A'' = ''label'' # [''A'']"
    and k1: "strings_Fields ''kernel k1'' = ''kernel'' # [''k1'']"
    and k2: "strings_Fields ''kernel k2'' = ''kernel'' # [''k2'']"
    and low: "strings_ToLower ''label'' = ''label''" "strings_ToLower ''kernel'' = ''kernel''"
    and ne: "[''A''] \<noteq> []" "[''k1''] \<noteq> []" "[''k2''] \<noteq> []"
    by code_simp+
  have g1: "getFile ?E (wd ?c) (strings_Join [''k1''] '' '') = Inr (ReaderAt (file_url ''/boot/k1''))"
    and g2: "getFile ?E (wd ?c) (strings_Join [''k2''] '' '') = Inr (ReaderAt (file_url ''/boot/k2''))"
    by code_simp+
  have top: "parseURL ?E ''syslinux.cfg'' (wd ?c) = Inr (file_url ''/boot/syslinux.cfg'')"
    "Fetch ?E (file_url ''/boot/syslinux.cfg'') = Inr (file_url ''/boot/syslinux.cfg'')"
    "ReadAll ?E (file_url ''/boot/syslinux.cfg'')
       = Inr (text_of [''label A'', ''kernel k1'', ''label A'', ''kernel k2''])"
    by code_simp+
  have split: "strings_Split (text_of [''label A'', ''kernel k1'', ''label A'', ''kernel k2''])
                 CHR 0x0A = [''label A'', ''kernel k1'', ''label A'', ''kernel k2'']"
    by code_simp
  have new: "?c = newParser (wd ?c)"
    by (simp add: w)
  have j: "strings_Join [''A''] '' '' = ''A''"
    by simp
  have "ParseConfigFile (Suc 0) ?E ''syslinux.cfg'' (wd ?c)
     = Some (Return [\<lparr>Name = ''A'', Cmdline = [],
         Kernel = Some (ReaderAt (file_url ''/boot/k2'')), Initrd = None\<rparr>] None)"
    using redeclared_label[OF la ne(1) low(1) k1 ne(2) low(2) la low(1) k2 ne(3) low(2) g1 g2,
        of "appendFile 0 ?E", THEN conjunct1] new top split
    unfolding j by blast
  then have whole: "ParseConfigFile 1 ?E ''syslinux.cfg'' boot_dir
     = Some (Return [\<lparr>Name = ''A'', Cmdline = [],
         Kernel = Some (ReaderAt (file_url ''/boot/k2'')), Initrd = None\<rparr>] None)"
    by (simp add: w)
  have gets: "getFile ?E boot_dir ''k1'' = Inr (ReaderAt (file_url ''/boot/k1''))"
    "getFile ?E boot_dir ''k2'' = Inr (ReaderAt (file_url ''/boot/k2''))"
    using g1 g2 by (simp_all add: w)
  have p1: "getFile ?P (wd position_before) (strings_Join [''k1''] '' '')
              = Inr (ReaderAt (file_url ''/boot/k1''))"
    and p2: "getFile ?P (wd position_before) (strings_Join [''k2''] '' '')
              = Inr (ReaderAt (file_url ''/boot/k2''))"
    by code_simp+
  have ptop: "parseURL ?P ''syslinux.cfg'' boot_dir = Inr (file_url ''/boot/syslinux.cfg'')"
    "Fetch ?P (file_url ''/boot/syslinux.cfg'') = Inr (file_url ''/boot/syslinux.cfg'')"
    "ReadAll ?P (file_url ''/boot/syslinux.cfg'')
       = Inr (text_of [''label B'', ''label A'', ''kernel k1'', ''label A'', ''kernel k2'',
                       ''label C''])"
    by code_simp+
  have psplit: "strings_Split (text_of [''label B'', ''label A'', ''kernel k1'', ''label A'',
                  ''kernel k2'', ''label C'']) CHR 0x0A
                = [''label B''] @ [''label A'', ''kernel k1'', ''label A'', ''kernel k2'']
                  @ [''label C'']"
    by code_simp
  have pre: "lines_loop (appendFile 0 ?P) ?P (newParser boot_dir) [''label B'']
               = Some (Return position_before None)"
    by code_simp
  have four: "lines_loop (appendFile 0 ?P) ?P position_before
                [''label A'', ''kernel k1'', ''label A'', ''kernel k2'']
                = Some (Return position_four None)"
    by code_simp
  have post: "lines_loop (appendFile 0 ?P) ?P position_four [''label C'']
                = Some (Return position_final None)"
    by code_simp
  have alone: "map_of (linuxEntries position_final) (strings_Join [''A''] '' '')
                 = map_of (linuxEntries position_four) (strings_Join [''A''] '' '')"
    by code_simp
  have fill: "backfill ?P position_final = Return position_final None"
    by code_simp
  have first: "strings_Join [''A''] '' '' \<notin> set (labelOrder position_before)"
    "strings_Join [''A''] '' '' \<noteq> defaultEntry position_final"
    "strings_Join [''A''] '' '' \<noteq> nerfDefaultEntry position_final"
    by code_simp+
  have ids: "ids_before position_final (labelOrder position_before) = [''B'']"
    by code_simp
  have out: "ParseConfigFile 1 ?P ''syslinux.cfg'' boot_dir =
     Some (Return [plain_entry ''B'' None,
                   plain_entry ''A'' (Some (ReaderAt (file_url ''/boot/k2''))),
                   plain_entry ''C'' None] None)"
    by code_simp
  note pos = redeclared_label[OF la ne(1) low(1) k1 ne(2) low(2) la low(1) k2 ne(3) low(2) p1 p2,
      of "appendFile 0 ?P", THEN conjunct2, rule_format,
      of 0 "''syslinux.cfg''" boot_dir "file_url ''/boot/syslinux.cfg''"
        "file_url ''/boot/syslinux.cfg''"
        "text_of [''label B'', ''label A'', ''kernel k1'', ''label A'', ''kernel k2'',
                  ''label C'']"
        "[''label B'']" "[''label C'']" position_four position_final position_final]
  have "\<exists>img tail_ids.
      ParseConfigFile (Suc 0) ?P ''syslinux.cfg'' boot_dir =
        Some (Return
          (map (\<lambda>l. the (map_of (linuxEntries position_final) l))
             (ids_before position_final (labelOrder position_before)) @
           img # map (\<lambda>l. the (map_of (linuxEntries position_final) l)) tail_ids) None) \<and>
      Name img = strings_Join [''A''] '' '' \<and> Kernel img = Some (ReaderAt (file_url ''/boot/k2'')) \<and>
      Cmdline img = globalAppend position_before \<and>
      strings_Join [''A''] '' '' \<notin> set (ids_before position_final (labelOrder position_before)) \<and>
      strings_Join [''A''] '' '' \<notin> set tail_ids"
    by (rule pos) (intro conjI refl ptop psplit pre four post alone fill first)
  then have place: "\<exists>img tail_ids.
      ParseConfigFile 1 ?P ''syslinux.cfg'' boot_dir =
        Some (Return
          (map (\<lambda>l. the (map_of (linuxEntries position_final) l))
             (ids_before position_final (labelOrder position_before)) @
           img # map (\<lambda>l. the (map_of (linuxEntries position_final) l)) tail_ids) None) \<and>
      Name img = ''A'' \<and> Kernel img = Some (ReaderAt (file_url ''/boot/k2'')) \<and>
      ''A'' \<notin> set tail_ids"
    unfolding j One_nat_def by blast
  show ?thesis
    using gets split whole pre four post fill ids place out by blast
qed

end
